theory Spec2Isabelle
  imports Complex_Main "HOL-Library.Log_Nat"
begin

section \<open>Values of the judge pipeline\<close>

text \<open>
  The judge (\<^verbatim>\<open>api/judge.py\<close>) works on the object that \<^verbatim>\<open>json.loads\<close> returns for the
  model's answer: nested dicts, lists, strings, numbers, booleans and \<^verbatim>\<open>None\<close>. A Python
  float is a finite value, an infinity or a NaN (\<^verbatim>\<open>json.loads\<close> accepts \<^verbatim>\<open>NaN\<close> and
  \<^verbatim>\<open>Infinity\<close>); a Python int is unbounded. A dict is an association list (lookup takes
  the first entry of a key, assignment replaces it or appends a new one). A string is a
  list of characters with code points below 256.
\<close>

datatype pyfloat = Finite rat | PosInf | NegInf | NaN

datatype json =
    JNull
  | JBool bool
  | JInt int
  | JFloat pyfloat
  | JStr string
  | JArr "json list"
  | JObj "(string \<times> json) list"

text \<open>The exceptions the modelled code can raise.\<close>

datatype error =
    AttributeError
  | TypeError
  | KeyError
  | ValueError
  | IndexError
  | OverflowError
  | ValidationError
  | TransportError
  | MalformedModelOutput

definition ebind :: "error + 'a \<Rightarrow> ('a \<Rightarrow> error + 'b) \<Rightarrow> error + 'b" where
  "ebind m f = (case m of Inl e \<Rightarrow> Inl e | Inr x \<Rightarrow> f x)"

fun emap :: "('a \<Rightarrow> error + 'b) \<Rightarrow> 'a list \<Rightarrow> error + 'b list" where
  "emap f [] = Inr []"
| "emap f (x # xs) = ebind (f x) (\<lambda>y. ebind (emap f xs) (\<lambda>ys. Inr (y # ys)))"

text \<open>Python truthiness, and \<^verbatim>\<open>a or b\<close>.\<close>

fun truthy :: "json \<Rightarrow> bool" where
  "truthy JNull = False"
| "truthy (JBool b) = b"
| "truthy (JInt n) = (n \<noteq> 0)"
| "truthy (JFloat f) = (f \<noteq> Finite 0)"
| "truthy (JStr s) = (s \<noteq> [])"
| "truthy (JArr xs) = (xs \<noteq> [])"
| "truthy (JObj kv) = (kv \<noteq> [])"

definition py_or :: "json \<Rightarrow> json \<Rightarrow> json" where
  "py_or a b = (if truthy a then a else b)"

text \<open>\<^verbatim>\<open>obj.get(key, default)\<close>: only a dict has \<^verbatim>\<open>get\<close>.\<close>

fun dict_get :: "json \<Rightarrow> string \<Rightarrow> json \<Rightarrow> error + json" where
  "dict_get (JObj kv) k d = Inr (case map_of kv k of Some v \<Rightarrow> v | None \<Rightarrow> d)"
| "dict_get _ k d = Inl AttributeError"

text \<open>\<^verbatim>\<open>d[key] = v\<close> on a dict.\<close>

fun dict_set :: "(string \<times> json) list \<Rightarrow> string \<Rightarrow> json \<Rightarrow> (string \<times> json) list" where
  "dict_set [] k v = [(k, v)]"
| "dict_set ((k', v') # kv) k v = (if k' = k then (k, v) # kv else (k', v') # dict_set kv k v)"

section \<open>Strings\<close>

text \<open>\<^verbatim>\<open>str.isspace\<close> on the code points below 256, and \<^verbatim>\<open>str.strip()\<close>.\<close>

definition is_space :: "char \<Rightarrow> bool" where
  "is_space c = (let n = of_char c :: nat in
     (9 \<le> n \<and> n \<le> 13) \<or> (28 \<le> n \<and> n \<le> 32) \<or> n = 133 \<or> n = 160)"

definition strip :: "string \<Rightarrow> string" where
  "strip s = rev (dropWhile is_space (rev (dropWhile is_space s)))"

text \<open>\<^verbatim>\<open>s.split(sep)\<close> for a separator of one character: one piece more than separators.\<close>

fun split_on :: "char \<Rightarrow> string \<Rightarrow> string list" where
  "split_on sep [] = [[]]"
| "split_on sep (c # cs) =
     (if c = sep then [] # split_on sep cs
      else (case split_on sep cs of p # ps \<Rightarrow> (c # p) # ps | [] \<Rightarrow> [[c]]))"

definition replace_char :: "char \<Rightarrow> char \<Rightarrow> string \<Rightarrow> string" where
  "replace_char a b s = map (\<lambda>c. if c = a then b else c) s"

section \<open>Rich-text fallbacks\<close>

definition SPEECH_SLOTS :: "string list" where
  "SPEECH_SLOTS = [''First Speech'', ''Second Speech'', ''Third Speech'', ''Reply'']"

text \<open>
  \<^verbatim>\<open>count = sum(1 for s in t.replace("!", ".").replace("?", ".").split(".") if s.strip())\<close>
\<close>

definition sentence_count :: "string \<Rightarrow> nat" where
  "sentence_count t =
     length (filter (\<lambda>s. strip s \<noteq> [])
       (split_on (CHR ''.'') (replace_char (CHR ''?'') (CHR ''.'') (replace_char (CHR ''!'') (CHR ''.'') t))))"

definition additions :: "string list" where
  "additions =
    [''They framed the weighing early and attempted to collapse the round onto the decisive clashes.'',
     ''Comparative analysis connected claims to explicit impacts, although some links could be clearer.'',
     ''Time allocation and signposting generally supported flow and judge comprehension.'']"

text \<open>
  The loop \<^verbatim>\<open>while count < min_sents and additions: t = (t + " " + additions.pop(0)).strip(); count += 1\<close>,
  by recursion on the fillers that are left.
\<close>

fun add_fillers :: "nat \<Rightarrow> nat \<Rightarrow> string list \<Rightarrow> string \<Rightarrow> string" where
  "add_fillers count min_sents [] t = t"
| "add_fillers count min_sents (a # as) t =
     (if count < min_sents then add_fillers (count + 1) min_sents as (strip (t @ '' '' @ a))
      else t)"

definition ensure_min_sentences :: "string \<Rightarrow> nat \<Rightarrow> string" where
  "ensure_min_sentences text min_sents =
     (let t = strip text; count = sentence_count t
      in if count \<ge> min_sents then t else add_fillers count min_sents additions t)"

definition expand_extra :: "string \<Rightarrow> string" where
  "expand_extra label =
     (if label = ''brilliant'' then
        '' It combined clean warranting with timing that flipped a contested issue. The downstream impact shaped the judge's weighing.''
      else if label = ''great'' then
        '' It advanced the team's win condition with precise comparative work. The explanation connected claim to impact without new matter.''
      else if label = ''good'' then
        '' Solid structure and relevance maintained flow control. A clearer explicit impact link could make it round-deciding.''
      else if label = ''inaccuracy'' then
        '' A factual/comparative slip reduced credibility and opened room for opponent leverage. Correct sourcing and line-by-line precision would fix this.''
      else
        '' Dropping or mishandling a critical line ceded weighing to the opponent. Always address the win-condition clash before extending new material.'')"

text \<open>
  \<^verbatim>\<open>_expand_move(label, seed)\<close>: \<^verbatim>\<open>(seed or "A notable ...") + extra\<close> raises TypeError when
  the seed is truthy and not a string.
\<close>

definition expand_move :: "string \<Rightarrow> json \<Rightarrow> error + string" where
  "expand_move label seed =
     (case py_or seed (JStr ''A notable contribution occurred at a pivotal moment.'') of
        JStr s \<Rightarrow> Inr (ensure_min_sentences (s @ expand_extra label) 2)
      | _ \<Rightarrow> Inl TypeError)"

section \<open>Speech slots and the hard enforcer of the label distribution\<close>

definition default_move :: json where
  "default_move = JObj [(''time'', JStr ''''), (''label'', JStr ''good''),
     (''explanation'', JStr ''A generally solid contribution with clear structure and relevance.'')]"

text \<open>\<^verbatim>\<open>m["time"] = slot\<close>: item assignment with a string key needs a dict.\<close>

fun set_time :: "json \<Rightarrow> string \<Rightarrow> error + json" where
  "set_time (JObj kv) slot = Inr (JObj (dict_set kv ''time'' (JStr slot)))"
| "set_time _ slot = Inl TypeError"

text \<open>\<^verbatim>\<open>for i, m in enumerate(moves): m["time"] = SPEECH_SLOTS[i]\<close>\<close>

fun assign_times :: "json list \<Rightarrow> string list \<Rightarrow> error + json list" where
  "assign_times [] slots = Inr []"
| "assign_times (m # ms) [] = Inl IndexError"
| "assign_times (m # ms) (s # ss) =
     ebind (set_time m s) (\<lambda>m'. ebind (assign_times ms ss) (\<lambda>ms'. Inr (m' # ms')))"

text \<open>
  \<^verbatim>\<open>_assign_speech_slots(moves)\<close>: pad with default moves up to four, keep the first four,
  overwrite the time of each. The argument is whatever the verdict holds under
  \<^verbatim>\<open>notable_moves\<close>. A string or a dict shorter than four has no \<^verbatim>\<open>append\<close>
  (AttributeError); a longer one is iterated over its characters or keys, which take no
  item assignment (TypeError; slicing a dict of more than four keys already raises, a
  TypeError before Python 3.12); \<^verbatim>\<open>len\<close> of a number, a boolean or \<^verbatim>\<open>None\<close> is a TypeError.
\<close>

fun assign_speech_slots :: "json \<Rightarrow> error + json list" where
  "assign_speech_slots (JArr xs) =
     (let padded = xs @ replicate (4 - length xs) default_move;
          trimmed = (if length padded > 4 then take 4 padded else padded)
      in assign_times trimmed SPEECH_SLOTS)"
| "assign_speech_slots (JStr s) = (if length s < 4 then Inl AttributeError else Inl TypeError)"
| "assign_speech_slots (JObj kv) =
     (if length (remdups (map fst kv)) < 4 then Inl AttributeError else Inl TypeError)"
| "assign_speech_slots _ = Inl TypeError"

text \<open>\<^verbatim>\<open>moves[i]["explanation"] if i < len(moves) else ""\<close>\<close>

definition move_seed :: "json list \<Rightarrow> nat \<Rightarrow> error + json" where
  "move_seed moves i =
     (if i < length moves then
        (case moves ! i of
           JObj kv \<Rightarrow> (case map_of kv ''explanation'' of Some v \<Rightarrow> Inr v | None \<Rightarrow> Inl KeyError)
         | _ \<Rightarrow> Inl TypeError)
      else Inr (JStr ''''))"

definition winner_target :: "string list" where
  "winner_target = [''brilliant'', ''great'', ''good'', ''inaccuracy'']"

definition loser_target :: "string list" where
  "loser_target = [''inaccuracy'', ''blunder'', ''good'', ''great'']"

definition force_distribution :: "json list \<Rightarrow> bool \<Rightarrow> error + json list" where
  "force_distribution moves want_positive_majority =
     (let target = (if want_positive_majority then winner_target else loser_target)
      in emap (\<lambda>(i, label).
           ebind (move_seed moves i) (\<lambda>seed_exp.
           ebind (expand_move label seed_exp) (\<lambda>exp.
           Inr (JObj [(''time'', JStr (SPEECH_SLOTS ! i)), (''label'', JStr label),
                      (''explanation'', JStr exp)]))))
         (enumerate 0 target))"

text \<open>\<^verbatim>\<open>result["analysis"][side]["notable_moves"] = v\<close>\<close>

definition set_notable_moves :: "json \<Rightarrow> string \<Rightarrow> json \<Rightarrow> error + json" where
  "set_notable_moves result side v =
     (case result of
        JObj r \<Rightarrow>
          (case map_of r ''analysis'' of
             None \<Rightarrow> Inl KeyError
           | Some (JObj a) \<Rightarrow>
               (case map_of a side of
                  None \<Rightarrow> Inl KeyError
                | Some (JObj s) \<Rightarrow>
                    Inr (JObj (dict_set r ''analysis''
                      (JObj (dict_set a side (JObj (dict_set s ''notable_moves'' v))))))
                | Some _ \<Rightarrow> Inl TypeError)
           | Some _ \<Rightarrow> Inl TypeError)
      | _ \<Rightarrow> Inl TypeError)"

definition is_winner :: "json \<Rightarrow> string \<Rightarrow> bool" where
  "is_winner winner side =
     (winner \<noteq> JStr ''TIE'' \<and>
      ((winner = JStr ''AFFIRMATIVE'' \<and> side = ''affirmative'') \<or>
       (winner = JStr ''NEGATIVE'' \<and> side = ''negative'')))"

text \<open>One round of the loop \<^verbatim>\<open>for side in ["affirmative","negative"]\<close> of the rebalancer.\<close>

definition rebalance_side :: "json \<Rightarrow> json \<Rightarrow> string \<Rightarrow> error + json" where
  "rebalance_side result winner side =
     ebind (dict_get result ''analysis'' (JObj [])) (\<lambda>analysis.
     ebind (dict_get analysis side (JObj [])) (\<lambda>side_obj.
     ebind (dict_get side_obj ''notable_moves'' (JArr [])) (\<lambda>moves0.
     ebind (assign_speech_slots moves0) (\<lambda>moves.
     ebind (force_distribution moves (is_winner winner side)) (\<lambda>new.
     ebind (assign_speech_slots (JArr new)) (\<lambda>new'.
     set_notable_moves result side (JArr new')))))))"

definition rebalance_notable_moves :: "json \<Rightarrow> json \<Rightarrow> error + json" where
  "rebalance_notable_moves result winner =
     ebind (rebalance_side result winner ''affirmative'') (\<lambda>r.
     rebalance_side r winner ''negative'')"

text \<open>
  What a reader of the verdict sees of a side's moves: the list under
  \<^verbatim>\<open>result["analysis"][side]["notable_moves"]\<close>, the label and the time of each, and the
  counts that \<^verbatim>\<open>--debug\<close> prints.
\<close>

definition lookup :: "json \<Rightarrow> string \<Rightarrow> json option" where
  "lookup j k = (case j of JObj kv \<Rightarrow> map_of kv k | _ \<Rightarrow> None)"

definition notable_moves_of :: "json \<Rightarrow> string \<Rightarrow> json option" where
  "notable_moves_of result side =
     Option.bind (Option.bind (lookup result ''analysis'') (\<lambda>a. lookup a side))
       (\<lambda>s. lookup s ''notable_moves'')"

definition labels_of :: "json \<Rightarrow> string \<Rightarrow> json option list" where
  "labels_of result side =
     (case notable_moves_of result side of
        Some (JArr ms) \<Rightarrow> map (\<lambda>m. lookup m ''label'') ms
      | _ \<Rightarrow> [])"

definition times_of :: "json \<Rightarrow> string \<Rightarrow> json option list" where
  "times_of result side =
     (case notable_moves_of result side of
        Some (JArr ms) \<Rightarrow> map (\<lambda>m. lookup m ''time'') ms
      | _ \<Rightarrow> [])"

definition positives :: "json option list \<Rightarrow> nat" where
  "positives ls = length (filter (\<lambda>l. l = Some (JStr ''brilliant'') \<or> l = Some (JStr ''great'')) ls)"

definition negatives :: "json option list \<Rightarrow> nat" where
  "negatives ls = length (filter (\<lambda>l. l = Some (JStr ''inaccuracy'') \<or> l = Some (JStr ''blunder'')) ls)"

text \<open>
  A move as the normalizer and the rebalancer leave it: a dict whose explanation is a
  string. \<open>has_moves result side ms\<close>: the verdict holds the list \<open>ms\<close> of such moves
  for the side (of any length).
\<close>

definition is_move :: "json \<Rightarrow> bool" where
  "is_move m =
     (case m of
        JObj kv \<Rightarrow> (case map_of kv ''explanation'' of Some (JStr s) \<Rightarrow> True | _ \<Rightarrow> False)
      | _ \<Rightarrow> False)"

definition has_moves :: "json \<Rightarrow> string \<Rightarrow> json list \<Rightarrow> bool" where
  "has_moves result side ms \<longleftrightarrow>
     notable_moves_of result side = Some (JArr ms) \<and> (\<forall>m\<in>set ms. is_move m)"

definition target_of :: "bool \<Rightarrow> string list" where
  "target_of w = (if w then winner_target else loser_target)"

definition good_moves :: "json list \<Rightarrow> bool \<Rightarrow> bool" where
  "good_moves new w \<longleftrightarrow>
     length new = 4 \<and>
     map (\<lambda>m. lookup m ''label'') new = map (\<lambda>l. Some (JStr l)) (target_of w) \<and>
     map (\<lambda>m. lookup m ''time'') new = map (\<lambda>s. Some (JStr s)) SPEECH_SLOTS \<and>
     (\<forall>m\<in>set new. is_move m)"

text \<open>A verdict with no affirmative move and five negative moves, used in concrete checks.\<close>

definition ex_verdict :: json where
  "ex_verdict = JObj [(''winner'', JStr ''AFFIRMATIVE''), (''analysis'', JObj
     [(''affirmative'', JObj [(''notable_moves'', JArr [])]),
      (''negative'', JObj [(''notable_moves'', JArr (replicate 5 default_move))])])]"

section \<open>Floats and the numeric sanitizer\<close>

text \<open>
  A finite Python float is a binary64 value, here the rational it denotes. \<open>rnd64\<close> rounds
  a rational to the nearest binary64 value, ties to even (53 significant bits, exponent of
  the last place not below \<open>-1074\<close>); a result of magnitude \<open>2^1024\<close> or more is an overflow.
  Signed zeros are not told apart (no computation of the judge produces a negative zero).
\<close>

definition pow2 :: "int \<Rightarrow> rat" where
  "pow2 k = (if 0 \<le> k then 2 ^ nat k else 1 / 2 ^ nat (- k))"

definition round_half_even :: "rat \<Rightarrow> int" where
  "round_half_even x =
     (let f = \<lfloor>x\<rfloor>; d = x - of_int f
      in if d < 1 / 2 then f else if 1 / 2 < d then f + 1 else if even f then f else f + 1)"

text \<open>\<open>ilog2 x\<close> is \<open>\<lfloor>log\<^sub>2 x\<rfloor>\<close> for a positive rational.\<close>

definition ilog2 :: "rat \<Rightarrow> int" where
  "ilog2 x =
     (let (p, q) = quotient_of x; k = bitlen p - bitlen q
      in if pow2 k \<le> x then k else k - 1)"

definition rnd64 :: "rat \<Rightarrow> rat" where
  "rnd64 x =
     (if x = 0 then 0
      else let e = max (ilog2 \<bar>x\<bar> - 52) (- 1074)
           in of_int (round_half_even (x / pow2 e)) * pow2 e)"

text \<open>A rounded value of magnitude \<open>2^1024\<close> or more is out of the range of binary64.\<close>

definition overflows :: "rat \<Rightarrow> bool" where
  "overflows r = (r \<noteq> 0 \<and> 1024 \<le> ilog2 \<bar>r\<bar>)"

text \<open>\<^verbatim>\<open>float(n)\<close> of an int: correctly rounded, OverflowError when out of range.\<close>

definition int_to_float :: "int \<Rightarrow> error + pyfloat" where
  "int_to_float n =
     (let r = rnd64 (of_int n) in if overflows r then Inl OverflowError else Inr (Finite r))"

text \<open>
  \<^verbatim>\<open>float(v)\<close> on a JSON value. An int converts with rounding, or raises OverflowError;
  \<^verbatim>\<open>None\<close>, a list and a dict raise TypeError; a string is parsed by Python's float
  parser, a parameter \<open>str_to_float\<close> of the model (\<open>None\<close>: ValueError).
\<close>

fun py_float :: "(string \<Rightarrow> pyfloat option) \<Rightarrow> json \<Rightarrow> error + pyfloat" where
  "py_float str_to_float JNull = Inl TypeError"
| "py_float str_to_float (JBool b) = Inr (Finite (if b then 1 else 0))"
| "py_float str_to_float (JInt n) = int_to_float n"
| "py_float str_to_float (JFloat f) = Inr f"
| "py_float str_to_float (JStr s) =
     (case str_to_float s of None \<Rightarrow> Inl ValueError | Some f \<Rightarrow> Inr f)"
| "py_float str_to_float (JArr xs) = Inl TypeError"
| "py_float str_to_float (JObj kv) = Inl TypeError"

text \<open>A Python number: the bounds are ints, the coerced value is a float.\<close>

datatype pynum = PInt int | PFloat pyfloat

text \<open>\<open>f < i\<close> and \<open>f > i\<close> between a float and an int; every comparison with NaN is false.\<close>

fun float_lt_int :: "pyfloat \<Rightarrow> int \<Rightarrow> bool" where
  "float_lt_int (Finite x) i = (x < of_int i)"
| "float_lt_int PosInf i = False"
| "float_lt_int NegInf i = True"
| "float_lt_int NaN i = False"

fun float_gt_int :: "pyfloat \<Rightarrow> int \<Rightarrow> bool" where
  "float_gt_int (Finite x) i = (of_int i < x)"
| "float_gt_int PosInf i = True"
| "float_gt_int NegInf i = False"
| "float_gt_int NaN i = False"

text \<open>
  \<^verbatim>\<open>min(hi, f)\<close> is \<open>f\<close> if \<open>f < hi\<close> and \<open>hi\<close> otherwise; \<^verbatim>\<open>max(lo, m)\<close> is \<open>m\<close> if
  \<open>m > lo\<close> and \<open>lo\<close> otherwise.
\<close>

definition py_min :: "int \<Rightarrow> pyfloat \<Rightarrow> pynum" where
  "py_min hi f = (if float_lt_int f hi then PFloat f else PInt hi)"

fun py_max :: "int \<Rightarrow> pynum \<Rightarrow> pynum" where
  "py_max lo (PInt h) = (if lo < h then PInt h else PInt lo)"
| "py_max lo (PFloat g) = (if float_gt_int g lo then PFloat g else PInt lo)"

text \<open>
  \<^verbatim>\<open>def _clip(v, lo, hi): try: return max(lo, min(hi, float(v))) except Exception: return lo\<close>
\<close>

definition clip :: "(string \<Rightarrow> pyfloat option) \<Rightarrow> json \<Rightarrow> int \<Rightarrow> int \<Rightarrow> pynum" where
  "clip str_to_float v lo hi =
     (case py_float str_to_float v of
        Inl e \<Rightarrow> PInt lo
      | Inr f \<Rightarrow> py_max lo (py_min hi f))"

text \<open>\<^verbatim>\<open>int(x)\<close>: truncation towards zero; an infinity or a NaN raises.\<close>

definition trunc :: "rat \<Rightarrow> int" where
  "trunc x = (if 0 \<le> x then \<lfloor>x\<rfloor> else \<lceil>x\<rceil>)"

fun py_int :: "pynum \<Rightarrow> error + int" where
  "py_int (PInt n) = Inr n"
| "py_int (PFloat (Finite x)) = Inr (trunc x)"
| "py_int (PFloat PosInf) = Inl OverflowError"
| "py_int (PFloat NegInf) = Inl OverflowError"
| "py_int (PFloat NaN) = Inl ValueError"

text \<open>\<^verbatim>\<open>s[key] = int(_clip(s.get(key, 0), lo, hi))\<close> on a dict \<open>s\<close>.\<close>

definition clip_field ::
  "(string \<Rightarrow> pyfloat option) \<Rightarrow> (string \<times> json) list \<Rightarrow> string \<Rightarrow> int \<Rightarrow> int \<Rightarrow>
     error + (string \<times> json) list" where
  "clip_field str_to_float s key lo hi =
     ebind (dict_get (JObj s) key (JInt 0)) (\<lambda>v.
     ebind (py_int (clip str_to_float v lo hi)) (\<lambda>n.
     Inr (dict_set s key (JInt n))))"

text \<open>
  The body of the loops of \<^verbatim>\<open>enforce_ranges\<close> for one speaker or reply object \<open>s\<close>
  (\<^verbatim>\<open>s.get\<close> raises AttributeError unless \<open>s\<close> is a dict), with the three caps.
\<close>

definition enforce_speaker ::
  "(string \<Rightarrow> pyfloat option) \<Rightarrow> json \<Rightarrow> int \<Rightarrow> int \<Rightarrow> int \<Rightarrow> error + json" where
  "enforce_speaker str_to_float s matter manner method =
     (case s of
        JObj kv \<Rightarrow>
          ebind (clip_field str_to_float kv ''matter'' 0 matter) (\<lambda>kv.
          ebind (clip_field str_to_float kv ''manner'' 0 manner) (\<lambda>kv.
          ebind (clip_field str_to_float kv ''method'' 0 method) (\<lambda>kv.
          Inr (JObj kv))))
      | _ \<Rightarrow> Inl AttributeError)"

text \<open>\<^verbatim>\<open>for spk in ["speaker1", "speaker2", "speaker3"]: ...; side_obj[spk] = s\<close>\<close>

fun enforce_speakers ::
  "(string \<Rightarrow> pyfloat option) \<Rightarrow> (string \<times> json) list \<Rightarrow> string list \<Rightarrow>
     error + (string \<times> json) list" where
  "enforce_speakers str_to_float side_obj [] = Inr side_obj"
| "enforce_speakers str_to_float side_obj (spk # spks) =
     ebind (dict_get (JObj side_obj) spk (JObj [])) (\<lambda>s.
     ebind (enforce_speaker str_to_float s 40 30 30) (\<lambda>s.
     enforce_speakers str_to_float (dict_set side_obj spk s) spks))"

text \<open>One round of \<^verbatim>\<open>for side in ["affirmative", "negative"]\<close>, on the dict \<open>scores\<close>.\<close>

definition enforce_side ::
  "(string \<Rightarrow> pyfloat option) \<Rightarrow> (string \<times> json) list \<Rightarrow> string \<Rightarrow>
     error + (string \<times> json) list" where
  "enforce_side str_to_float scores side =
     ebind (dict_get (JObj scores) side (JObj [])) (\<lambda>side_obj.
       case side_obj of
         JObj so \<Rightarrow>
           ebind (enforce_speakers str_to_float so [''speaker1'', ''speaker2'', ''speaker3'']) (\<lambda>so.
           ebind (dict_get (JObj so) ''reply'' (JObj [])) (\<lambda>rep.
           ebind (enforce_speaker str_to_float rep 20 15 15) (\<lambda>rep.
           Inr (dict_set scores side (JObj (dict_set so ''reply'' rep))))))
       | _ \<Rightarrow> Inl AttributeError)"

definition enforce_ranges :: "(string \<Rightarrow> pyfloat option) \<Rightarrow> json \<Rightarrow> error + json" where
  "enforce_ranges str_to_float result =
     (case result of
        JObj r \<Rightarrow>
          ebind (dict_get (JObj r) ''scores'' (JObj [])) (\<lambda>scores.
            case scores of
              JObj sc \<Rightarrow>
                ebind (enforce_side str_to_float sc ''affirmative'') (\<lambda>sc.
                ebind (enforce_side str_to_float sc ''negative'') (\<lambda>sc.
                Inr (JObj (dict_set r ''scores'' (JObj sc)))))
            | _ \<Rightarrow> Inl AttributeError)
      | _ \<Rightarrow> Inr result)"

text \<open>
  What a reader sees of a score: \<^verbatim>\<open>result["scores"][side][spk][field]\<close>, and the
  declared cap of each field (\<^verbatim>\<open>JUDGE_SCHEMA\<close>: speaker 40/30/30, reply 20/15/15).
\<close>

definition score_of :: "json \<Rightarrow> string \<Rightarrow> string \<Rightarrow> string \<Rightarrow> json option" where
  "score_of result side spk field =
     Option.bind (Option.bind (Option.bind (lookup result ''scores'') (\<lambda>sc. lookup sc side))
       (\<lambda>so. lookup so spk)) (\<lambda>s. lookup s field)"

definition cap :: "string \<Rightarrow> string \<Rightarrow> int" where
  "cap spk field =
     (if spk = ''reply'' then (if field = ''matter'' then 20 else 15)
      else (if field = ''matter'' then 40 else 30))"

text \<open>
  The sanitizer's rule in the specification's words: for a numeric field with bounds
  \<open>[0, hi]\<close>, a coercion failure gives the lower bound, a number is clamped into the bounds
  (a value inside the bounds keeps its integer part). A NaN compares false with everything and ends at \<open>hi\<close>.
\<close>

definition spec_clamp :: "(string \<Rightarrow> pyfloat option) \<Rightarrow> json \<Rightarrow> int \<Rightarrow> int" where
  "spec_clamp str_to_float v hi =
     (case py_float str_to_float v of
        Inl e \<Rightarrow> 0
      | Inr (Finite x) \<Rightarrow> (if x \<le> 0 then 0 else if of_int hi \<le> x then hi else \<lfloor>x\<rfloor>)
      | Inr PosInf \<Rightarrow> hi
      | Inr NegInf \<Rightarrow> 0
      | Inr NaN \<Rightarrow> hi)"

text \<open>
  The value the sanitizer reads for a field: the one the model gave, or \<open>0\<close> when the field
  or an object around it is missing (\<^verbatim>\<open>.get(..., {})\<close>, \<^verbatim>\<open>s.get(field, 0)\<close>).
\<close>

definition getd :: "(string \<times> json) list \<Rightarrow> string \<Rightarrow> json \<Rightarrow> json" where
  "getd kv k d = (case map_of kv k of Some v \<Rightarrow> v | None \<Rightarrow> d)"

definition raw_score :: "json \<Rightarrow> string \<Rightarrow> string \<Rightarrow> string \<Rightarrow> json" where
  "raw_score result side spk field =
     (case score_of result side spk field of Some v \<Rightarrow> v | None \<Rightarrow> JInt 0)"

text \<open>
  The objects around the numeric fields: \<open>scores\<close>, each side and each speaker or reply is a
  dict, or missing.
\<close>

fun obj_or_missing :: "json option \<Rightarrow> bool" where
  "obj_or_missing None = True"
| "obj_or_missing (Some (JObj kv)) = True"
| "obj_or_missing (Some _) = False"

definition side_of :: "json \<Rightarrow> string \<Rightarrow> json option" where
  "side_of result side = Option.bind (lookup result ''scores'') (\<lambda>sc. lookup sc side)"

definition speaker_of :: "json \<Rightarrow> string \<Rightarrow> string \<Rightarrow> json option" where
  "speaker_of result side spk = Option.bind (side_of result side) (\<lambda>so. lookup so spk)"

definition containers_ok :: "json \<Rightarrow> bool" where
  "containers_ok result \<longleftrightarrow>
     (case result of JObj r \<Rightarrow> True | _ \<Rightarrow> False) \<and>
     obj_or_missing (lookup result ''scores'') \<and>
     (\<forall>side \<in> {''affirmative'', ''negative''}.
        obj_or_missing (side_of result side) \<and>
        (\<forall>spk \<in> {''speaker1'', ''speaker2'', ''speaker3'', ''reply''}.
           obj_or_missing (speaker_of result side spk)))"

definition fix_speaker ::
  "(string \<Rightarrow> pyfloat option) \<Rightarrow> (string \<times> json) list \<Rightarrow> int \<Rightarrow> int \<Rightarrow> int \<Rightarrow> (string \<times> json) list" where
  "fix_speaker str_to_float kv matter manner method =
     dict_set (dict_set (dict_set kv
       ''matter'' (JInt (spec_clamp str_to_float (getd kv ''matter'' (JInt 0)) matter)))
       ''manner'' (JInt (spec_clamp str_to_float (getd kv ''manner'' (JInt 0)) manner)))
       ''method'' (JInt (spec_clamp str_to_float (getd kv ''method'' (JInt 0)) method))"

text \<open>\<open>so'\<close> holds, for the speaker \<open>spk\<close>, the sanitized copy of what \<open>so\<close> holds.\<close>

definition fixed_speaker :: "(string \<Rightarrow> pyfloat option) \<Rightarrow> (string \<times> json) list \<Rightarrow> (string \<times> json) list \<Rightarrow> string \<Rightarrow> bool" where
  "fixed_speaker p so so' spk \<longleftrightarrow>
     (case getd so spk (JObj []) of
        JObj kv \<Rightarrow>
          map_of so' spk =
            Some (JObj (fix_speaker p kv (cap spk ''matter'') (cap spk ''manner'') (cap spk ''method'')))
      | _ \<Rightarrow> False)"


section \<open>The analysis normalizer\<close>

text \<open>\<^verbatim>\<open>(v or "").strip()\<close>: a truthy value that is not a string has no \<^verbatim>\<open>strip\<close>.\<close>

definition str_strip :: "json \<Rightarrow> error + string" where
  "str_strip v = (case py_or v (JStr '''') of JStr s \<Rightarrow> Inr (strip s) | _ \<Rightarrow> Inl AttributeError)"

text \<open>
  \<^verbatim>\<open>str.lower()\<close> and \<^verbatim>\<open>str.upper()\<close> on the code points below 256. \<open>upper\<close> is applied
  to the two side names only, which are ASCII.
\<close>

definition lower_char :: "char \<Rightarrow> char" where
  "lower_char c = (let n = of_char c :: nat in
     if (65 \<le> n \<and> n \<le> 90) \<or> (192 \<le> n \<and> n \<le> 222 \<and> n \<noteq> 215) then char_of (n + 32) else c)"

definition upper_char :: "char \<Rightarrow> char" where
  "upper_char c = (let n = of_char c :: nat in
     if 97 \<le> n \<and> n \<le> 122 then char_of (n - 32) else c)"

definition overview_fallback :: "string \<Rightarrow> string \<Rightarrow> string" where
  "overview_fallback side_name transcript =
     ensure_min_sentences (''The '' @ side_name @
       '' team presented a coherent case with clear signposting and attempted to control the weighing mechanism. They engaged core clashes, extending key material while addressing opponent pressure. Evidence use was directionally sound, though several claims would benefit from tighter warrants and explicit impact calculus tied to feasibility, risk, and timeframe.'') 4"

definition improvements_fallback :: "string \<Rightarrow> string" where
  "improvements_fallback side_name =
     ensure_min_sentences (side_name @
       '' can improve by tightening comparative weighing earlier, frontloading the round-winning mechanism, and backing asserted links with a concrete warrant (study, example, or model). They should also avoid assertion-by-repetition by collapsing onto the strongest contention and making explicit, line-by-line resolution of the main clashes.'') 4"

text \<open>
  \<^verbatim>\<open>ov = (blob.get("overview") or "").strip()\<close>, then the fallback paragraph when it is
  empty and \<^verbatim>\<open>_ensure_min_sentences(ov, 4)\<close> otherwise.
\<close>

definition rich_text :: "json \<Rightarrow> string \<Rightarrow> error + string" where
  "rich_text v fallback =
     ebind (str_strip v) (\<lambda>t. Inr (if t = [] then fallback else ensure_min_sentences t 4))"

definition LABELS :: "string list" where
  "LABELS = [''brilliant'', ''great'', ''good'', ''inaccuracy'', ''blunder'']"

text \<open>The body of \<^verbatim>\<open>for m in moves\<close>: the normalized copy of one move.\<close>

definition normalize_move :: "json \<Rightarrow> error + json" where
  "normalize_move m =
     (case m of
        JObj kv \<Rightarrow>
          (case py_or (getd kv ''label'' JNull) (JStr ''good'') of
             JStr l \<Rightarrow>
               (let lbl0 = map lower_char l;
                    lbl = (if lbl0 \<in> set LABELS then lbl0 else ''good'')
                in ebind (str_strip (getd kv ''explanation'' JNull)) (\<lambda>seed.
                   ebind (expand_move lbl (JStr seed)) (\<lambda>exp.
                   ebind (str_strip (getd kv ''time'' JNull)) (\<lambda>time.
                   Inr (JObj [(''time'', JStr time), (''label'', JStr lbl),
                              (''explanation'', JStr exp)])))))
           | _ \<Rightarrow> Inl AttributeError)
      | _ \<Rightarrow> Inl AttributeError)"

text \<open>
  What \<^verbatim>\<open>for m in (blob.get("notable_moves") or [])\<close> iterates over: the elements of a
  list, the characters of a string, the keys of a dict; a number or \<^verbatim>\<open>True\<close> is not
  iterable.
\<close>

definition iter_moves :: "json \<Rightarrow> error + json list" where
  "iter_moves moves =
     (case py_or moves (JArr []) of
        JArr xs \<Rightarrow> Inr xs
      | JStr s \<Rightarrow> Inr (map (\<lambda>c. JStr [c]) s)
      | JObj kv \<Rightarrow> Inr (map JStr (remdups (map fst kv)))
      | _ \<Rightarrow> Inl TypeError)"

text \<open>
  \<^verbatim>\<open>while len(norm) < 4: norm.append({"time": "", "label": "good", "explanation": _expand_move("good", ...)})\<close>
\<close>

definition pad_norm :: "json list \<Rightarrow> error + json list" where
  "pad_norm norm0 =
     ebind (emap (\<lambda>u. ebind (expand_move ''good''
                (JStr ''A generally solid contribution with clear structure and relevance.'')) (\<lambda>exp.
              Inr (JObj [(''time'', JStr ''''), (''label'', JStr ''good''), (''explanation'', JStr exp)])))
            (replicate (4 - length norm0) ()))
       (\<lambda>pads. Inr (norm0 @ pads))"

text \<open>One round of \<^verbatim>\<open>for side in ["affirmative","negative"]\<close>, on the dict \<open>analysis\<close>.\<close>

definition ensure_side :: "(string \<times> json) list \<Rightarrow> string \<Rightarrow> string \<Rightarrow> error + (string \<times> json) list" where
  "ensure_side analysis side transcript_text =
     (case py_or (getd analysis side JNull) (JObj []) of
        JObj blob0 \<Rightarrow>
          ebind (rich_text (getd blob0 ''overview'' JNull)
                   (overview_fallback (map upper_char side) transcript_text)) (\<lambda>ov.
          let blob1 = dict_set blob0 ''overview'' (JStr ov) in
          ebind (rich_text (getd blob1 ''improvements'' JNull)
                   (improvements_fallback (map upper_char side))) (\<lambda>imp.
          let blob2 = dict_set blob1 ''improvements'' (JStr imp) in
          ebind (iter_moves (getd blob2 ''notable_moves'' JNull)) (\<lambda>moves.
          ebind (emap normalize_move moves) (\<lambda>norm0.
          ebind (pad_norm norm0) (\<lambda>norm1.
          ebind (assign_speech_slots (JArr norm1)) (\<lambda>slots.
          Inr (dict_set analysis side (JObj (dict_set blob2 ''notable_moves'' (JArr slots))))))))))
      | _ \<Rightarrow> Inl AttributeError)"

text \<open>
  \<^verbatim>\<open>ensure_analysis_defaults(result, transcript_text)\<close>. On anything but a dict the
  membership test or the item assignment raises TypeError.
\<close>

definition ensure_analysis_defaults :: "json \<Rightarrow> string \<Rightarrow> error + json" where
  "ensure_analysis_defaults result transcript_text =
     (case result of
        JObj r \<Rightarrow>
          (let analysis = (case map_of r ''analysis'' of Some (JObj a) \<Rightarrow> a | _ \<Rightarrow> [])
           in ebind (ensure_side analysis ''affirmative'' transcript_text) (\<lambda>a1.
              ebind (ensure_side a1 ''negative'' transcript_text) (\<lambda>a2.
              Inr (JObj (dict_set r ''analysis'' (JObj a2))))))
      | _ \<Rightarrow> Inl TypeError)"

text \<open>The overview and the improvements text of a side, as the report prints them.\<close>

definition text_of :: "json \<Rightarrow> string \<Rightarrow> string \<Rightarrow> json option" where
  "text_of result side key =
     Option.bind (Option.bind (lookup result ''analysis'') (\<lambda>a. lookup a side)) (\<lambda>s. lookup s key)"

text \<open>A model answer whose affirmative overview is the two letters \<open>Hi\<close>.\<close>

definition ex_terse :: json where
  "ex_terse = JObj [(''analysis'', JObj [(''affirmative'', JObj [(''overview'', JStr ''Hi'')])])]"

text \<open>The number of sentences, as \<^verbatim>\<open>_ensure_min_sentences\<close> counts them, of such a text.\<close>

definition text_sentences :: "json \<Rightarrow> string \<Rightarrow> string \<Rightarrow> nat option" where
  "text_sentences result side key =
     (case text_of result side key of Some (JStr s) \<Rightarrow> Some (sentence_count s) | _ \<Rightarrow> None)"

section \<open>Totals, scaled scores and the outcome sentence\<close>

text \<open>
  \<^verbatim>\<open>int(v)\<close> on a JSON value; a string is parsed by Python's int parser, a parameter
  \<open>str_to_int\<close> of the model. \<^verbatim>\<open>obj[key]\<close> raises KeyError on a dict without the key
  and TypeError on anything that is not a dict.
\<close>

fun py_int_json :: "(string \<Rightarrow> int option) \<Rightarrow> json \<Rightarrow> error + int" where
  "py_int_json str_to_int JNull = Inl TypeError"
| "py_int_json str_to_int (JBool b) = Inr (if b then 1 else 0)"
| "py_int_json str_to_int (JInt n) = Inr n"
| "py_int_json str_to_int (JFloat f) = py_int (PFloat f)"
| "py_int_json str_to_int (JStr s) =
     (case str_to_int s of None \<Rightarrow> Inl ValueError | Some n \<Rightarrow> Inr n)"
| "py_int_json str_to_int (JArr xs) = Inl TypeError"
| "py_int_json str_to_int (JObj kv) = Inl TypeError"

fun subscript :: "json \<Rightarrow> string \<Rightarrow> error + json" where
  "subscript (JObj kv) k = (case map_of kv k of Some v \<Rightarrow> Inr v | None \<Rightarrow> Inl KeyError)"
| "subscript _ k = Inl TypeError"

text \<open>
  \<^verbatim>\<open>int(sp.get("matter",0)) + int(sp.get("manner",0)) + int(sp.get("method",0))\<close>; the
  reply total is computed by the same expression.
\<close>

definition weighted_total_speaker :: "(string \<Rightarrow> int option) \<Rightarrow> json \<Rightarrow> error + int" where
  "weighted_total_speaker str_to_int sp =
     ebind (dict_get sp ''matter'' (JInt 0)) (\<lambda>v1. ebind (py_int_json str_to_int v1) (\<lambda>matter.
     ebind (dict_get sp ''manner'' (JInt 0)) (\<lambda>v2. ebind (py_int_json str_to_int v2) (\<lambda>manner.
     ebind (dict_get sp ''method'' (JInt 0)) (\<lambda>v3. ebind (py_int_json str_to_int v3) (\<lambda>method.
     Inr (matter + manner + method)))))))"

definition weighted_total_reply :: "(string \<Rightarrow> int option) \<Rightarrow> json \<Rightarrow> error + int" where
  "weighted_total_reply str_to_int rep = weighted_total_speaker str_to_int rep"

definition side_total :: "(string \<Rightarrow> int option) \<Rightarrow> json \<Rightarrow> error + int" where
  "side_total str_to_int s =
     ebind (subscript s ''speaker1'') (\<lambda>s1. ebind (weighted_total_speaker str_to_int s1) (\<lambda>t1.
     ebind (subscript s ''speaker2'') (\<lambda>s2. ebind (weighted_total_speaker str_to_int s2) (\<lambda>t2.
     ebind (subscript s ''speaker3'') (\<lambda>s3. ebind (weighted_total_speaker str_to_int s3) (\<lambda>t3.
     ebind (subscript s ''reply'') (\<lambda>rp. ebind (weighted_total_reply str_to_int rp) (\<lambda>t4.
     Inr (t1 + t2 + t3 + t4)))))))))"

text \<open>\<^verbatim>\<open>compute_totals(result)\<close>: the pair of the affirmative and the negative total.\<close>

definition compute_totals :: "(string \<Rightarrow> int option) \<Rightarrow> json \<Rightarrow> error + int \<times> int" where
  "compute_totals str_to_int result =
     ebind (subscript result ''scores'') (\<lambda>sc.
     ebind (subscript sc ''affirmative'') (\<lambda>aff.
     ebind (subscript sc ''negative'') (\<lambda>neg.
     ebind (side_total str_to_int aff) (\<lambda>a.
     ebind (side_total str_to_int neg) (\<lambda>n. Inr (a, n))))))"

subsection \<open>Float arithmetic of the scaled scores\<close>

definition to_float :: "rat \<Rightarrow> pyfloat" where
  "to_float x =
     (let r = rnd64 x
      in if overflows r then (if 0 < r then PosInf else NegInf) else Finite r)"

text \<open>Division of a float by a positive finite constant, subtraction and \<^verbatim>\<open>abs\<close>.\<close>

fun fdiv_pos :: "pyfloat \<Rightarrow> rat \<Rightarrow> pyfloat" where
  "fdiv_pos (Finite a) b = to_float (a / b)"
| "fdiv_pos f b = f"

fun fsub :: "pyfloat \<Rightarrow> pyfloat \<Rightarrow> pyfloat" where
  "fsub (Finite a) (Finite b) = to_float (a - b)"
| "fsub NaN g = NaN"
| "fsub f NaN = NaN"
| "fsub PosInf PosInf = NaN"
| "fsub NegInf NegInf = NaN"
| "fsub PosInf g = PosInf"
| "fsub NegInf g = NegInf"
| "fsub (Finite a) PosInf = NegInf"
| "fsub (Finite a) NegInf = PosInf"

fun fabs :: "pyfloat \<Rightarrow> pyfloat" where
  "fabs (Finite a) = Finite \<bar>a\<bar>"
| "fabs PosInf = PosInf"
| "fabs NegInf = PosInf"
| "fabs NaN = NaN"

text \<open>
  \<^verbatim>\<open>round(x, 1)\<close>: the exact value of \<open>x\<close> is rounded to one decimal, ties to even, and the
  decimal is converted back to the nearest float; an infinity or a NaN is returned as it
  is.
\<close>

fun py_round1 :: "pyfloat \<Rightarrow> error + pyfloat" where
  "py_round1 (Finite x) =
     (let r = rnd64 (of_int (round_half_even (x * 10)) / 10)
      in if overflows r then Inl OverflowError else Inr (Finite r))"
| "py_round1 f = Inr f"

text \<open>\<^verbatim>\<open>def scale_to_100(raw_total): return round(float(raw_total) / 3.5, 1)\<close>\<close>

definition scale_to_100 :: "int \<Rightarrow> error + pyfloat" where
  "scale_to_100 raw_total = ebind (int_to_float raw_total) (\<lambda>f. py_round1 (fdiv_pos f (7 / 2)))"

subsection \<open>\<^verbatim>\<open>repr\<close> of a float, as an f-string prints it\<close>

text \<open>The decimal digits of a natural number, given as an int.\<close>

function digits10 :: "int \<Rightarrow> string" where
  "digits10 n =
     (if n < 10 then [char_of (48 + n)] else digits10 (n div 10) @ [char_of (48 + n mod 10)])"
  by pat_completeness auto
termination
  by (relation "measure nat") auto

definition pow10 :: "int \<Rightarrow> rat" where
  "pow10 k = (if 0 \<le> k then 10 ^ nat k else 1 / 10 ^ nat (- k))"

text \<open>\<open>ilog10 x\<close> is \<open>\<lfloor>log\<^sub>1\<^sub>0 x\<rfloor>\<close> for a positive rational.\<close>

definition ilog10 :: "rat \<Rightarrow> int" where
  "ilog10 x =
     (if 1 \<le> x then int (length (digits10 \<lfloor>x\<rfloor>)) - 1
      else - int (length (digits10 (\<lceil>1 / x\<rceil> - 1))))"

text \<open>
  The shortest decimal that converts back to \<open>x\<close>: for \<open>d = 1, 2, ...\<close> significant
  digits, the two decimals of \<open>d\<close> digits around \<open>x\<close> are tried, and of two that convert
  back the closer one is taken. The result \<open>(c, k)\<close> stands for \<open>c / 10^k\<close>.
\<close>

fun shortest_decimal :: "rat \<Rightarrow> int \<Rightarrow> nat list \<Rightarrow> (int \<times> int) option" where
  "shortest_decimal x e10 [] = None"
| "shortest_decimal x e10 (d # ds) =
     (let k = int d - 1 - e10;
          lo = \<lfloor>x * pow10 k\<rfloor>;
          hi = lo + 1;
          oklo = (rnd64 (of_int lo / pow10 k) = x);
          okhi = (rnd64 (of_int hi / pow10 k) = x)
      in if oklo \<and> okhi then
           Some (if x * pow10 k - of_int lo < of_int hi - x * pow10 k then lo
                 else if of_int hi - x * pow10 k < x * pow10 k - of_int lo then hi
                 else if even lo then lo else hi, k)
         else if oklo then Some (lo, k)
         else if okhi then Some (hi, k)
         else shortest_decimal x e10 ds)"

definition strip_zeros :: "string \<Rightarrow> string" where
  "strip_zeros s = rev (dropWhile (\<lambda>c. c = CHR ''0'') (rev s))"

text \<open>
  \<open>repr\<close> of a positive finite float: the digits \<open>D\<close> of the shortest decimal and the
  position \<open>decpt\<close> of the decimal point (the value is \<open>0.D \<times> 10^decpt\<close>); fixed notation
  for \<open>-4 < decpt \<le> 16\<close>, with \<open>.0\<close> added to a whole number, and exponent notation
  otherwise. Seventeen digits always convert back to a binary64 value.
\<close>

definition repr_pos :: "rat \<Rightarrow> string" where
  "repr_pos x =
     (let e10 = ilog10 x;
          (c, k) = (case shortest_decimal x e10 [1 ..< 18] of
                      Some ck \<Rightarrow> ck
                    | None \<Rightarrow> (round_half_even (x * pow10 (16 - e10)), 16 - e10));
          ds = digits10 c;
          D = (if strip_zeros ds = [] then ''0'' else strip_zeros ds);
          decpt = int (length ds) - k
      in if - 4 < decpt \<and> decpt \<le> 16 then
           (if decpt \<le> 0 then ''0.'' @ replicate (nat (- decpt)) (CHR ''0'') @ D
            else if int (length D) \<le> decpt then
              D @ replicate (nat (decpt - int (length D))) (CHR ''0'') @ ''.0''
            else take (nat decpt) D @ ''.'' @ drop (nat decpt) D)
         else
           [hd D] @ (if 1 < length D then ''.'' @ tl D else '''') @ ''e'' @
           (if decpt - 1 < 0 then ''-'' else ''+'') @
           (if \<bar>decpt - 1\<bar> < 10 then ''0'' else '''') @ digits10 \<bar>decpt - 1\<bar>)"

fun py_repr :: "pyfloat \<Rightarrow> string" where
  "py_repr (Finite x) =
     (if x = 0 then ''0.0'' else if x < 0 then ''-'' @ repr_pos (- x) else repr_pos x)"
| "py_repr PosInf = ''inf''"
| "py_repr NegInf = ''-inf''"
| "py_repr NaN = ''nan''"

subsection \<open>The verdict composer\<close>

definition margin_label :: "int \<Rightarrow> string" where
  "margin_label diff =
     (let d = \<bar>diff\<bar>
      in if d \<le> 2 then ''very close''
         else if d \<le> 5 then ''close but clear''
         else if d \<le> 10 then ''clear win''
         else if d \<le> 20 then ''dominant win''
         else ''overwhelming win'')"

text \<open>Step 7 of \<^verbatim>\<open>main\<close>: the outcome sentence from the two raw totals.\<close>

definition final_statement :: "int \<Rightarrow> int \<Rightarrow> error + string" where
  "final_statement aff_total neg_total =
     ebind (scale_to_100 aff_total) (\<lambda>aff_scaled.
     ebind (scale_to_100 neg_total) (\<lambda>neg_scaled.
     let diff_raw = aff_total - neg_total in
     ebind (py_round1 (fabs (fsub aff_scaled neg_scaled))) (\<lambda>diff_scaled.
     if diff_raw = 0 then
       Inr (''The round is a TIE. Final (/100): AFF '' @ py_repr aff_scaled @ '' - NEG '' @
            py_repr neg_scaled @ ''.'')
     else
       (let winner_side = (if 0 < diff_raw then ''AFFIRMATIVE'' else ''NEGATIVE'')
        in Inr (''Congratulations, Team '' @ winner_side @ ''! You win by '' @
                py_repr diff_scaled @ '' points ('' @ margin_label diff_raw @ ''). '' @
                ''Final (/100): AFF '' @ py_repr aff_scaled @ '' - NEG '' @
                py_repr neg_scaled @ ''.'')))))"

section \<open>The transcript gate\<close>

text \<open>
  \<^verbatim>\<open>str.splitlines()\<close> on code points below 256: a line ends at \<^verbatim>\<open>\n\<close>, \<^verbatim>\<open>\r\<close>,
  \<^verbatim>\<open>\r\n\<close>, \<^verbatim>\<open>\v\<close>, \<^verbatim>\<open>\f\<close>, \<^verbatim>\<open>\x1c\<close>, \<^verbatim>\<open>\x1d\<close>, \<^verbatim>\<open>\x1e\<close> or \<^verbatim>\<open>\x85\<close>; the
  line breaks are dropped, and a text that ends with one has no empty last line. The first
  argument is the line read so far, reversed.
\<close>

definition is_linebreak :: "char \<Rightarrow> bool" where
  "is_linebreak c = (let n = of_char c :: nat in
     (10 \<le> n \<and> n \<le> 13) \<or> (28 \<le> n \<and> n \<le> 30) \<or> n = 133)"

fun splitlines_from :: "string \<Rightarrow> string \<Rightarrow> string list" where
  "splitlines_from cur [] = (if cur = [] then [] else [rev cur])"
| "splitlines_from cur [c] = (if is_linebreak c then [rev cur] else [rev (c # cur)])"
| "splitlines_from cur (c # d # cs) =
     (if c = CHR 0x0D \<and> d = CHR 0x0A then rev cur # splitlines_from [] cs
      else if is_linebreak c then rev cur # splitlines_from [] (d # cs)
      else splitlines_from (c # cur) (d # cs))"

definition splitlines :: "string \<Rightarrow> string list" where
  "splitlines s = splitlines_from [] s"

text \<open>\<^verbatim>\<open>"\n".join(lines)\<close>\<close>

fun join_lines :: "string list \<Rightarrow> string" where
  "join_lines [] = []"
| "join_lines [l] = l"
| "join_lines (l # ls) = l @ [CHR 0x0A] @ join_lines ls"

definition is_digit :: "char \<Rightarrow> bool" where
  "is_digit c = (let n = of_char c :: nat in 48 \<le> n \<and> n \<le> 57)"

text \<open>
  \<^verbatim>\<open>re.match(r"\[\d{2}:\d{2}\s+(AFF|NEG)-", s)\<close>: the text after the match, if the
  start of \<open>s\<close> matches. The greedy \<^verbatim>\<open>\s+\<close> takes all the white space: with less, the
  next character would be white space and not \<open>A\<close> or \<open>N\<close>.
\<close>

fun match_tag_head :: "string \<Rightarrow> string option" where
  "match_tag_head (b # d1 # d2 # c # d3 # d4 # rest) =
     (if b = CHR ''['' \<and> is_digit d1 \<and> is_digit d2 \<and> c = CHR '':'' \<and> is_digit d3 \<and> is_digit d4
         \<and> takeWhile is_space rest \<noteq> []
      then (case dropWhile is_space rest of
              s1 # s2 # s3 # h # r \<Rightarrow>
                (if ([s1, s2, s3] = ''AFF'' \<or> [s1, s2, s3] = ''NEG'') \<and> h = CHR ''-''
                 then Some r else None)
            | _ \<Rightarrow> None)
      else None)"
| "match_tag_head _ = None"

text \<open>
  \<^verbatim>\<open>r"\[\d{2}:\d{2}\s+(AFF|NEG)-[^\]]+\]\s*"\<close> at the start of \<open>s\<close>: after the head, one
  or more characters other than \<open>]\<close>, the \<open>]\<close>, and all the white space that follows.
\<close>

definition match_tag :: "string \<Rightarrow> string option" where
  "match_tag s =
     (case match_tag_head s of
        None \<Rightarrow> None
      | Some r \<Rightarrow>
          (if takeWhile (\<lambda>c. c \<noteq> CHR '']'') r = [] \<or> dropWhile (\<lambda>c. c \<noteq> CHR '']'') r = []
           then None
           else Some (dropWhile is_space (tl (dropWhile (\<lambda>c. c \<noteq> CHR '']'') r)))))"

lemma match_tag_head_shorter: "match_tag_head s = Some r \<Longrightarrow> length r < length s"
proof (induction s rule: match_tag_head.induct)
  case (1 b d1 d2 c d3 d4 rest)
  then obtain s1 s2 s3 h where "dropWhile is_space rest = s1 # s2 # s3 # h # r"
    by (auto split: if_splits list.splits)
  then have "length r < length (dropWhile is_space rest)" by simp
  also have "\<dots> \<le> length rest" by (rule length_dropWhile_le)
  finally show ?case by simp
qed simp_all

lemma match_tag_shorter: "match_tag s = Some r \<Longrightarrow> length r < length s"
proof -
  assume m: "match_tag s = Some r"
  then obtain r0 where r0: "match_tag_head s = Some r0"
    by (auto simp: match_tag_def split: option.splits)
  let ?d = "dropWhile (\<lambda>c. c \<noteq> CHR '']'') r0"
  from m r0 have "r = dropWhile is_space (tl ?d)"
    by (auto simp: match_tag_def split: if_splits)
  moreover have "length (dropWhile is_space (tl ?d)) \<le> length (tl ?d)"
    by (rule length_dropWhile_le)
  ultimately have "length r \<le> length (tl ?d)" by (simp only:)
  also have "\<dots> \<le> length ?d" by simp
  also have "\<dots> \<le> length r0" by (rule length_dropWhile_le)
  also from r0 have "\<dots> < length s" by (rule match_tag_head_shorter)
  finally show ?thesis .
qed

text \<open>\<^verbatim>\<open>re.sub(pattern, "", s)\<close>: every match, found from left to right, is removed.\<close>

function sub_tags :: "string \<Rightarrow> string" where
  "sub_tags [] = []"
| "sub_tags (c # cs) =
     (case match_tag (c # cs) of Some rest \<Rightarrow> sub_tags rest | None \<Rightarrow> c # sub_tags cs)"
  by pat_completeness auto
termination
  by (relation "measure length") (auto dest: match_tag_shorter)

definition extract_payload_text :: "string \<Rightarrow> string" where
  "extract_payload_text transcript_text = strip (sub_tags transcript_text)"

text \<open>The local variables \<^verbatim>\<open>speech_lines\<close> and \<^verbatim>\<open>payload\<close> of \<^verbatim>\<open>is_low_content\<close>.\<close>

definition speech_lines :: "string \<Rightarrow> string list" where
  "speech_lines transcript_text =
     filter (\<lambda>ln. match_tag_head ln \<noteq> None)
       (filter (\<lambda>ln. strip ln \<noteq> []) (splitlines transcript_text))"

definition payload :: "string \<Rightarrow> string" where
  "payload transcript_text = extract_payload_text (join_lines (speech_lines transcript_text))"

definition LOW_CONTENT_SPEECH_MIN :: nat where
  "LOW_CONTENT_SPEECH_MIN = 3"

definition LOW_CONTENT_CHAR_MIN :: nat where
  "LOW_CONTENT_CHAR_MIN = 120"

definition is_low_content :: "string \<Rightarrow> bool" where
  "is_low_content transcript_text =
     (if transcript_text = [] \<or> strip transcript_text = [] then True
      else length (speech_lines transcript_text) < LOW_CONTENT_SPEECH_MIN \<or>
           length (payload transcript_text) < LOW_CONTENT_CHAR_MIN)"

subsection \<open>The tag pattern and the payload, in the specification's words\<close>





text \<open>
  \<^verbatim>\<open>empty_result()\<close>. The dash of \<open>why_winner\<close> is the code point U+2014, written here
  as its three UTF-8 bytes.
\<close>

definition zero_sp :: json where
  "zero_sp = JObj [(''matter'', JInt 0), (''manner'', JInt 0), (''method'', JInt 0), (''notes'', JStr '''')]"

definition zero_side :: json where
  "zero_side = JObj [(''speaker1'', zero_sp), (''speaker2'', zero_sp), (''speaker3'', zero_sp),
     (''reply'', zero_sp)]"

definition empty_result_items :: "(string \<times> json) list" where
  "empty_result_items =
     [(''meta'', JObj [(''format'', JStr ''Policy''),
        (''rules'', JStr ''No new matter in 3rd speeches; reply is comparative only.'')]),
      (''scores'', JObj [(''affirmative'', zero_side), (''negative'', zero_side)]),
      (''winner'', JStr ''TIE''),
      (''rationale'', JObj
        [(''summary'', JStr ''Insufficient material: there were not enough substantive speeches to evaluate the round.''),
         (''why_winner'', JStr (''No winner '' @ [CHR 0xE2, CHR 0x80, CHR 0x94] @
            '' both teams provided insufficient content.'')),
         (''key_clashes'', JArr [])]),
      (''analysis'', JObj
        [(''affirmative'', JObj
           [(''overview'', JStr ''No substantive speeches recorded for AFF.''),
            (''improvements'', JStr ''Deliver required speeches with claims, warrants, and comparison.''),
            (''notable_moves'', JArr [])]),
         (''negative'', JObj
           [(''overview'', JStr ''No substantive speeches recorded for NEG.''),
            (''improvements'', JStr ''Deliver required speeches with claims, warrants, and comparison.''),
            (''notable_moves'', JArr [])])])]"

definition empty_result :: json where
  "empty_result = JObj empty_result_items"

section \<open>The pipeline\<close>

text \<open>
  What \<^verbatim>\<open>main\<close> takes from outside the program: Python's parsers of floats and ints from
  strings, the model service (\<^verbatim>\<open>chat_ollama\<close> on the prompt built from the transcript:
  the parsed JSON of the answer, or the failure of the transport or of \<^verbatim>\<open>json.loads\<close>),
  and the validation of a result against \<^verbatim>\<open>JUDGE_SCHEMA\<close>.
\<close>

record env =
  env_float :: "string \<Rightarrow> pyfloat option"
  env_int :: "string \<Rightarrow> int option"
  env_chat :: "string \<Rightarrow> error + json"
  env_valid :: "json \<Rightarrow> bool"

text \<open>\<^verbatim>\<open>result[key] = v\<close>\<close>

fun set_key :: "json \<Rightarrow> string \<Rightarrow> json \<Rightarrow> error + json" where
  "set_key (JObj r) k v = Inr (JObj (dict_set r k v))"
| "set_key _ k v = Inl TypeError"

text \<open>Steps 2 and 3: clamp the numeric ranges, then ensure the rich analysis.\<close>

definition sanitize :: "env \<Rightarrow> json \<Rightarrow> string \<Rightarrow> error + json" where
  "sanitize e result transcript_text =
     ebind (enforce_ranges (env_float e) result) (\<lambda>r.
     ensure_analysis_defaults r transcript_text)"

text \<open>Step 4: validate; on a failure sanitize once more and validate again.\<close>

definition validated :: "env \<Rightarrow> json \<Rightarrow> string \<Rightarrow> error + json" where
  "validated e result transcript_text =
     (if env_valid e result then Inr result
      else ebind (sanitize e result transcript_text) (\<lambda>r.
           if env_valid e r then Inr r else Inl ValidationError))"

text \<open>
  Step 5, the tie-break:
  \<^verbatim>\<open>if result.get("winner") == "TIE": diff = aff - neg; if abs(diff) >= 1: result["winner"] = ...\<close>
\<close>

definition tie_break :: "json \<Rightarrow> int \<Rightarrow> int \<Rightarrow> error + json" where
  "tie_break result aff_total neg_total =
     ebind (dict_get result ''winner'' JNull) (\<lambda>w.
       if w = JStr ''TIE'' then
         (let diff = aff_total - neg_total
          in if 1 \<le> \<bar>diff\<bar>
             then set_key result ''winner'' (JStr (if 0 < diff then ''AFFIRMATIVE'' else ''NEGATIVE''))
             else Inr result)
       else Inr result)"

definition totals_dict :: "int \<Rightarrow> int \<Rightarrow> json" where
  "totals_dict aff_total neg_total =
     JObj [(''affirmative'', JInt aff_total), (''negative'', JInt neg_total)]"

text \<open>The low-content short-circuit of \<^verbatim>\<open>main\<close>.\<close>

definition low_content_verdict :: "error + json" where
  "low_content_verdict =
     ebind (set_key empty_result ''totals'' (totals_dict 0 0)) (\<lambda>result.
     ebind (scale_to_100 0) (\<lambda>aff_scaled.
     ebind (scale_to_100 0) (\<lambda>neg_scaled.
     set_key result ''final_statement''
       (JStr (''The round is a TIE. Final (/100): AFF '' @ py_repr aff_scaled @ '' - NEG '' @
              py_repr neg_scaled @ ''.'')))))"

text \<open>Steps 1 to 7 on a transcript that is not low-content.\<close>

definition judge :: "env \<Rightarrow> string \<Rightarrow> error + json" where
  "judge e transcript_text =
     ebind (env_chat e transcript_text) (\<lambda>result0.
     ebind (sanitize e result0 transcript_text) (\<lambda>result1.
     ebind (validated e result1 transcript_text) (\<lambda>result2.
     ebind (compute_totals (env_int e) result2) (\<lambda>(aff_total, neg_total).
     ebind (set_key result2 ''totals'' (totals_dict aff_total neg_total)) (\<lambda>result3.
     ebind (tie_break result3 aff_total neg_total) (\<lambda>result4.
     ebind (dict_get result4 ''winner'' (JStr ''TIE'')) (\<lambda>winner.
     ebind (rebalance_notable_moves result4 winner) (\<lambda>result5.
     ebind (final_statement aff_total neg_total) (\<lambda>statement.
     set_key result5 ''final_statement'' (JStr statement))))))))))"

text \<open>
  \<^verbatim>\<open>main\<close>, from the transcript text on: the number of calls of the model service, and the
  verdict (the dict \<open>result\<close> that the report is printed from) or the exception.
\<close>

definition main :: "env \<Rightarrow> string \<Rightarrow> nat \<times> (error + json)" where
  "main e transcript_text =
     (if is_low_content transcript_text then (0, low_content_verdict)
      else (1, judge e transcript_text))"

text \<open>
  The raw total of a side in the specification's words: the sum of the twelve numeric score
  fields of its three speakers and its reply, as the verdict holds them.
\<close>

definition field_value :: "json \<Rightarrow> string \<Rightarrow> string \<Rightarrow> string \<Rightarrow> int" where
  "field_value v side spk field = (case score_of v side spk field of Some (JInt x) \<Rightarrow> x | _ \<Rightarrow> 0)"

definition raw_total :: "json \<Rightarrow> string \<Rightarrow> int" where
  "raw_total v side =
     (\<Sum>spk\<leftarrow>[''speaker1'', ''speaker2'', ''speaker3'', ''reply''].
        \<Sum>field\<leftarrow>[''matter'', ''manner'', ''method'']. field_value v side spk field)"

text \<open>
  For the concrete checks: an environment whose model answers with the object \<open>j\<close> and
  whose validator accepts, and two transcripts, one of a single tagged line with 20
  characters of payload and one of three tagged lines with more than 120.
\<close>

definition ex_env :: "json \<Rightarrow> env" where
  "ex_env j = \<lparr>env_float = (\<lambda>s. None), env_int = (\<lambda>s. None), env_chat = (\<lambda>t. Inr j),
     env_valid = (\<lambda>r. True)\<rparr>"

definition ex_short :: string where
  "ex_short = ''[00:00 AFF-1] Twenty characters!!!''"

definition ex_transcript :: string where
  "ex_transcript =
     ''[00:00 AFF-1] Defines key terms clearly; claims policy X reduces emissions using Smith (2023).'' @ [CHR 0x0A] @
     ''[03:00 NEG-1] Challenges definition scope; says Smith uses extreme scenario; presents alternative evidence.'' @ [CHR 0x0A] @
     ''[06:00 AFF-2] Extends with infrastructure risk and cost-benefit; rebuts scenario critique.'' @ [CHR 0x0A]"

definition returns :: "nat \<times> (error + json) \<Rightarrow> bool" where
  "returns x = (case snd x of Inr v \<Rightarrow> True | Inl e \<Rightarrow> False)"

text \<open>The verdict of the low-content branch, written out.\<close>

definition low_verdict :: json where
  "low_verdict = JObj (empty_result_items @
     [(''totals'', totals_dict 0 0),
      (''final_statement'', JStr ''The round is a TIE. Final (/100): AFF 0.0 - NEG 0.0.'')])"

text \<open>
  A model answer that declares a TIE with raw totals 300 and 250, and no analysis.
\<close>

definition full_sp :: json where
  "full_sp = JObj [(''matter'', JInt 40), (''manner'', JInt 30), (''method'', JInt 30)]"

definition ex_answer :: json where
  "ex_answer = JObj
     [(''winner'', JStr ''TIE''),
      (''scores'', JObj
        [(''affirmative'', JObj [(''speaker1'', full_sp), (''speaker2'', full_sp), (''speaker3'', full_sp)]),
         (''negative'', JObj [(''speaker1'', full_sp), (''speaker2'', full_sp),
            (''speaker3'', JObj [(''matter'', JInt 40), (''manner'', JInt 10)])])])]"

text \<open>
  A model answer that declares a TIE; the affirmative speakers total 300 and there is no
  affirmative reply, the negative speakers total 290 and the negative reply 50.
\<close>

definition ex_reply :: json where
  "ex_reply = JObj
     [(''winner'', JStr ''TIE''),
      (''scores'', JObj
        [(''affirmative'', JObj [(''speaker1'', full_sp), (''speaker2'', full_sp), (''speaker3'', full_sp)]),
         (''negative'', JObj [(''speaker1'', full_sp), (''speaker2'', full_sp),
            (''speaker3'', JObj [(''matter'', JInt 40), (''manner'', JInt 30), (''method'', JInt 20)]),
            (''reply'', JObj [(''matter'', JInt 20), (''manner'', JInt 15), (''method'', JInt 15)])])])]"



section \<open>Proofs: the sum monad, dicts and speech slots\<close>

lemma ebind_Inr_iff: "ebind m f = Inr y \<longleftrightarrow> (\<exists>x. m = Inr x \<and> f x = Inr y)"
  by (cases m) (auto simp: ebind_def)

lemma ebind_Inr [simp]: "ebind (Inr x) f = f x"
  by (simp add: ebind_def)

lemma ebind_Inl [simp]: "ebind (Inl e) f = Inl e"
  by (simp add: ebind_def)

lemma map_of_dict_set: "map_of (dict_set kv k v) = (map_of kv)(k \<mapsto> v)"
  by (induction kv) (auto simp: fun_eq_iff)

lemma lookup_JObj [simp]: "lookup (JObj kv) k = map_of kv k"
  by (simp add: lookup_def)

lemma set_time_Inr: "set_time m s = Inr m' \<Longrightarrow>
  \<exists>kv. m = JObj kv \<and> m' = JObj (dict_set kv ''time'' (JStr s))"
  by (cases m) auto

lemma assign_times_Inr:
  "assign_times ms ss = Inr ms' \<Longrightarrow>
     length ms' = length ms \<and> length ms \<le> length ss \<and>
     map (\<lambda>m. lookup m ''time'') ms' = map (\<lambda>s. Some (JStr s)) (take (length ms) ss) \<and>
     map (\<lambda>m. lookup m ''label'') ms' = map (\<lambda>m. lookup m ''label'') ms \<and>
     map (\<lambda>m. lookup m ''explanation'') ms' = map (\<lambda>m. lookup m ''explanation'') ms \<and>
     (\<forall>m\<in>set ms'. \<exists>kv. m = JObj kv)"
proof (induction ms ss arbitrary: ms' rule: assign_times.induct)
  case (1 slots)
  then show ?case by simp
next
  case (2 m ms)
  then show ?case by simp
next
  case (3 m ms s ss)
  from "3.prems" obtain m' ms'' where
    m': "set_time m s = Inr m'" and ms'': "assign_times ms ss = Inr ms''" and eq: "ms' = m' # ms''"
    by (auto simp: ebind_Inr_iff)
  from set_time_Inr [OF m'] obtain kv where kv: "m = JObj kv" "m' = JObj (dict_set kv ''time'' (JStr s))"
    by blast
  from "3.IH" [OF ms''] kv eq show ?case
    by (simp add: map_of_dict_set)
qed

lemma assign_times_ok:
  "\<forall>m\<in>set ms. \<exists>kv. m = JObj kv \<Longrightarrow> length ms \<le> length ss \<Longrightarrow> \<exists>ms'. assign_times ms ss = Inr ms'"
proof (induction ms ss rule: assign_times.induct)
  case (3 m ms s ss)
  then obtain kv where "m = JObj kv" by auto
  with 3 show ?case by (auto simp: ebind_Inr_iff)
qed simp_all

lemma assign_speech_slots_Inr:
  assumes "assign_speech_slots j = Inr ms"
  shows "length ms = 4 \<and> map (\<lambda>m. lookup m ''time'') ms = map (\<lambda>s. Some (JStr s)) SPEECH_SLOTS \<and>
         (\<forall>m\<in>set ms. \<exists>kv. m = JObj kv)"
proof (cases j)
  case (JArr xs)
  let ?p = "xs @ replicate (4 - length xs) default_move"
  let ?t = "if length ?p > 4 then take 4 ?p else ?p"
  have len: "length ?t = 4" by auto
  from assms JArr have "assign_times ?t SPEECH_SLOTS = Inr ms" by (simp add: Let_def)
  from assign_times_Inr [OF this] len show ?thesis
    by (simp add: SPEECH_SLOTS_def)
qed (use assms in \<open>auto split: if_splits\<close>)

lemma assign_speech_slots_four:
  "length xs = 4 \<Longrightarrow> assign_speech_slots (JArr xs) = assign_times xs SPEECH_SLOTS"
  by simp

lemma is_move_iff: "is_move m \<longleftrightarrow> (\<exists>kv s. m = JObj kv \<and> map_of kv ''explanation'' = Some (JStr s))"
  by (auto simp: is_move_def split: json.splits option.splits)

lemma force_distribution_Inr:
  assumes "force_distribution ms w = Inr new"
  shows "length new = 4 \<and> map (\<lambda>m. lookup m ''label'') new = map (\<lambda>l. Some (JStr l)) (target_of w) \<and>
         (\<forall>m\<in>set new. is_move m)"
  using assms
  by (cases w)
     (auto simp: force_distribution_def winner_target_def loser_target_def target_of_def
        ebind_Inr_iff is_move_iff)

lemma expand_move_JStr: "\<exists>e. expand_move l (JStr s) = Inr e"
  by (simp add: expand_move_def py_or_def)

lemma move_seed_ok:
  "\<forall>m\<in>set ms. is_move m \<Longrightarrow> \<exists>s. move_seed ms i = Inr (JStr s)"
  by (auto simp: move_seed_def is_move_iff dest!: nth_mem split: json.splits option.splits) 

lemma force_distribution_ok:
  assumes "\<forall>m\<in>set ms. is_move m"
  shows "\<exists>new. force_distribution ms w = Inr new"
proof -
  have step: "\<exists>m. ebind (move_seed ms i) (\<lambda>seed_exp.
           ebind (expand_move label seed_exp) (\<lambda>exp.
           Inr (JObj [(''time'', JStr (SPEECH_SLOTS ! i)), (''label'', JStr label),
                      (''explanation'', JStr exp)]))) = Inr m" for i label
    using move_seed_ok [OF assms, of i] expand_move_JStr [of label]
    by (auto simp: ebind_Inr_iff)
  have "\<exists>new. emap (\<lambda>(i, label). ebind (move_seed ms i) (\<lambda>seed_exp.
           ebind (expand_move label seed_exp) (\<lambda>exp.
           Inr (JObj [(''time'', JStr (SPEECH_SLOTS ! i)), (''label'', JStr label),
                      (''explanation'', JStr exp)])))) xs = Inr new" for xs
  proof (induction xs)
    case (Cons x xs)
    obtain i l where x: "x = (i, l)" by (cases x)
    from step [of i l] Cons x show ?case by (auto simp: ebind_Inr_iff)
  qed simp
  then show ?thesis by (simp add: force_distribution_def Let_def)
qed

lemma is_move_lookup: "is_move m \<longleftrightarrow> (\<exists>kv. m = JObj kv) \<and> (\<exists>s. lookup m ''explanation'' = Some (JStr s))"
  by (auto simp: is_move_iff)

lemma is_move_transfer:
  assumes "map (\<lambda>m. lookup m ''explanation'') ms' = map (\<lambda>m. lookup m ''explanation'') ms"
    and "\<forall>m\<in>set ms'. \<exists>kv. m = JObj kv" and "\<forall>m\<in>set ms. is_move m"
  shows "\<forall>m\<in>set ms'. is_move m"
proof
  fix m assume "m \<in> set ms'"
  then obtain i where i: "i < length ms'" "ms' ! i = m" by (auto simp: in_set_conv_nth)
  from assms(1) have len: "length ms' = length ms" by (rule map_eq_imp_length_eq)
  from assms(1) have "map (\<lambda>m. lookup m ''explanation'') ms' ! i = map (\<lambda>m. lookup m ''explanation'') ms ! i"
    by simp
  with i len have "lookup m ''explanation'' = lookup (ms ! i) ''explanation''"
    by simp
  moreover from i len assms(3) have "is_move (ms ! i)" by simp
  moreover from assms(2) \<open>m \<in> set ms'\<close> have "\<exists>kv. m = JObj kv" by blast
  ultimately show "is_move m" by (simp add: is_move_lookup)
qed

lemma set_notable_moves_Inr:
  assumes h: "set_notable_moves result side v = Inr r'"
  shows "\<exists>r a s. result = JObj r \<and> map_of r ''analysis'' = Some (JObj a) \<and> map_of a side = Some (JObj s) \<and>
       r' = JObj (dict_set r ''analysis'' (JObj (dict_set a side (JObj (dict_set s ''notable_moves'' v)))))"
proof -
  from h obtain r where r: "result = JObj r"
    by (cases result) (simp_all add: set_notable_moves_def)
  from h r obtain ja where ja: "map_of r ''analysis'' = Some ja"
    by (cases "map_of r ''analysis''") (simp_all add: set_notable_moves_def)
  from h r ja obtain a where a: "ja = JObj a"
    by (cases ja) (simp_all add: set_notable_moves_def)
  from h r ja a obtain js where js: "map_of a side = Some js"
    by (cases "map_of a side") (simp_all add: set_notable_moves_def)
  from h r ja a js obtain s where s: "js = JObj s"
    by (cases js) (simp_all add: set_notable_moves_def)
  from h r ja a js s show ?thesis
    by (simp add: set_notable_moves_def)
qed

lemma rebalance_side_Inr:
  assumes "rebalance_side result winner side = Inr r'"
  shows "\<exists>r a s new. result = JObj r \<and> map_of r ''analysis'' = Some (JObj a) \<and>
           map_of a side = Some (JObj s) \<and> good_moves new (is_winner winner side) \<and>
           r' = JObj (dict_set r ''analysis''
                  (JObj (dict_set a side (JObj (dict_set s ''notable_moves'' (JArr new))))))"
proof -
  from assms obtain moves0 moves new new' where
    a: "assign_speech_slots moves0 = Inr moves" and
    f: "force_distribution moves (is_winner winner side) = Inr new" and
    b: "assign_speech_slots (JArr new) = Inr new'" and
    s: "set_notable_moves result side (JArr new') = Inr r'"
    unfolding rebalance_side_def ebind_Inr_iff by blast
  note fd = force_distribution_Inr [OF f]
  from b fd have "assign_times new SPEECH_SLOTS = Inr new'" by simp
  note at = assign_times_Inr [OF this]
  from at fd have "\<forall>m\<in>set new'. is_move m"
    by (intro is_move_transfer [of new' new]) auto
  with at fd assign_speech_slots_Inr [OF b] have "good_moves new' (is_winner winner side)"
    by (simp add: good_moves_def)
  with set_notable_moves_Inr [OF s] show ?thesis by blast
qed

lemma notable_moves_of_set:
  "map_of r ''analysis'' = Some (JObj a) \<Longrightarrow> map_of a side = Some (JObj s) \<Longrightarrow>
   notable_moves_of (JObj (dict_set r ''analysis''
       (JObj (dict_set a side (JObj (dict_set s ''notable_moves'' v)))))) side' =
     (if side' = side then Some v else notable_moves_of (JObj r) side')"
  by (simp add: notable_moves_of_def map_of_dict_set)

lemma rebalance_side_moves:
  assumes "rebalance_side result winner side = Inr r'"
  shows "\<exists>new. good_moves new (is_winner winner side) \<and> notable_moves_of r' side = Some (JArr new)"
    and "side' \<noteq> side \<Longrightarrow> notable_moves_of r' side' = notable_moves_of result side'"
  using rebalance_side_Inr [OF assms] by (auto simp: notable_moves_of_set)

lemma lookup_Some: "lookup j k = Some v \<Longrightarrow> \<exists>kv. j = JObj kv \<and> map_of kv k = Some v"
  by (cases j) (auto simp: lookup_def)

lemma rebalance_side_ok:
  assumes "notable_moves_of result side = Some (JArr ms)" "length ms = 4" "\<forall>m\<in>set ms. is_move m"
  shows "\<exists>r'. rebalance_side result winner side = Inr r'"
proof -
  from assms(1) obtain ja js where
    "lookup result ''analysis'' = Some ja" "lookup ja side = Some js"
    "lookup js ''notable_moves'' = Some (JArr ms)"
    by (auto simp: notable_moves_of_def Option.bind_eq_Some_conv)
  then obtain r a s where
    r: "result = JObj r" "map_of r ''analysis'' = Some (JObj a)" "map_of a side = Some (JObj s)"
      "map_of s ''notable_moves'' = Some (JArr ms)"
    by (metis lookup_Some)
  from assms(3) have objs: "\<forall>m\<in>set ms. \<exists>kv. m = JObj kv" by (auto simp: is_move_iff)
  from assign_times_ok [OF objs, of SPEECH_SLOTS] assms(2)
  obtain moves where moves: "assign_speech_slots (JArr ms) = Inr moves"
    by (auto simp: SPEECH_SLOTS_def)
  with assms(2) have "assign_times ms SPEECH_SLOTS = Inr moves" by simp
  note at = assign_times_Inr [OF this]
  with assms(3) have mv: "\<forall>m\<in>set moves. is_move m"
    by (intro is_move_transfer [of moves ms]) auto
  from force_distribution_ok [OF mv] obtain new where
    new: "force_distribution moves (is_winner winner side) = Inr new" by blast
  note fd = force_distribution_Inr [OF new]
  then have "\<forall>m\<in>set new. \<exists>kv. m = JObj kv" by (auto simp: is_move_iff)
  from assign_times_ok [OF this, of SPEECH_SLOTS] fd
  obtain new' where new': "assign_speech_slots (JArr new) = Inr new'"
    by (auto simp: SPEECH_SLOTS_def)
  from r have "dict_get result ''analysis'' (JObj []) = Inr (JObj a)"
     "dict_get (JObj a) side (JObj []) = Inr (JObj s)"
     "dict_get (JObj s) ''notable_moves'' (JArr []) = Inr (JArr ms)"
     "\<exists>r'. set_notable_moves result side (JArr new') = Inr r'"
    by (simp_all add: set_notable_moves_def)
  with moves new new' show ?thesis
    unfolding rebalance_side_def by (simp only: ebind_Inr)
qed

lemma default_move_is_move: "is_move default_move"
  by (simp add: is_move_iff default_move_def)

lemma assign_speech_slots_ok:
  assumes "\<forall>m\<in>set ms. is_move m"
  shows "\<exists>ms'. assign_speech_slots (JArr ms) = Inr ms' \<and> (\<forall>m\<in>set ms'. is_move m)"
proof -
  let ?p = "ms @ replicate (4 - length ms) default_move"
  let ?t = "if length ?p > 4 then take 4 ?p else ?p"
  from assms have p: "\<forall>m\<in>set ?p. is_move m"
    by (auto simp: default_move_is_move)
  then have t: "\<forall>m\<in>set ?t. is_move m"
    by (auto dest: in_set_takeD)
  then have objs: "\<forall>m\<in>set ?t. \<exists>kv. m = JObj kv"
    unfolding is_move_iff by blast
  have "length ?t \<le> length SPEECH_SLOTS"
    by (auto simp: SPEECH_SLOTS_def)
  from assign_times_ok [OF objs this] obtain ms' where ms': "assign_times ?t SPEECH_SLOTS = Inr ms'"
    by blast
  note at = assign_times_Inr [OF ms']
  with t have "\<forall>m\<in>set ms'. is_move m"
    by (intro is_move_transfer [of ms' ?t]) auto
  with ms' show ?thesis by (simp add: Let_def)
qed

lemma rebalance_side_total:
  assumes "has_moves result side ms"
  shows "\<exists>r'. rebalance_side result winner side = Inr r'"
proof -
  from assms have nm: "notable_moves_of result side = Some (JArr ms)" and mv: "\<forall>m\<in>set ms. is_move m"
    by (simp_all add: has_moves_def)
  from nm obtain ja js where
    "lookup result ''analysis'' = Some ja" "lookup ja side = Some js"
    "lookup js ''notable_moves'' = Some (JArr ms)"
    by (auto simp: notable_moves_of_def Option.bind_eq_Some_conv)
  then obtain r a s where
    r: "result = JObj r" "map_of r ''analysis'' = Some (JObj a)" "map_of a side = Some (JObj s)"
      "map_of s ''notable_moves'' = Some (JArr ms)"
    by (metis lookup_Some)
  from assign_speech_slots_ok [OF mv] obtain moves where
    moves: "assign_speech_slots (JArr ms) = Inr moves" "\<forall>m\<in>set moves. is_move m" by blast
  from force_distribution_ok [OF moves(2)] obtain new where
    new: "force_distribution moves (is_winner winner side) = Inr new" by blast
  from force_distribution_Inr [OF new] have "\<forall>m\<in>set new. is_move m" by simp
  from assign_speech_slots_ok [OF this] obtain new' where
    new': "assign_speech_slots (JArr new) = Inr new'" by blast
  from r have "dict_get result ''analysis'' (JObj []) = Inr (JObj a)"
     "dict_get (JObj a) side (JObj []) = Inr (JObj s)"
     "dict_get (JObj s) ''notable_moves'' (JArr []) = Inr (JArr ms)"
     "\<exists>r'. set_notable_moves result side (JArr new') = Inr r'"
    by (simp_all add: set_notable_moves_def)
  with moves new new' show ?thesis
    unfolding rebalance_side_def by (simp only: ebind_Inr)
qed

lemma rebalance_notable_moves_Inr:
  assumes "rebalance_notable_moves result winner = Inr r'"
  shows "\<exists>na nn. good_moves na (is_winner winner ''affirmative'') \<and>
            good_moves nn (is_winner winner ''negative'') \<and>
            notable_moves_of r' ''affirmative'' = Some (JArr na) \<and>
            notable_moves_of r' ''negative'' = Some (JArr nn)"
proof -
  from assms obtain r1 where
    r1: "rebalance_side result winner ''affirmative'' = Inr r1" and
    r': "rebalance_side r1 winner ''negative'' = Inr r'"
    by (auto simp: rebalance_notable_moves_def ebind_Inr_iff)
  from rebalance_side_moves(1) [OF r1] obtain na where
    na: "good_moves na (is_winner winner ''affirmative'')" "notable_moves_of r1 ''affirmative'' = Some (JArr na)"
    by blast
  from rebalance_side_moves(1) [OF r'] obtain nn where
    nn: "good_moves nn (is_winner winner ''negative'')" "notable_moves_of r' ''negative'' = Some (JArr nn)"
    by blast
  from rebalance_side_moves(2) [OF r', of "''affirmative''"] na(2)
  have "notable_moves_of r' ''affirmative'' = Some (JArr na)" by simp
  with na nn show ?thesis by blast
qed

lemma rebalance_notable_moves_total:
  assumes "has_moves result ''affirmative'' ms_a" "has_moves result ''negative'' ms_n"
  shows "\<exists>r'. rebalance_notable_moves result winner = Inr r'"
proof -
  from rebalance_side_total [OF assms(1)] obtain r1 where
    r1: "rebalance_side result winner ''affirmative'' = Inr r1" by blast
  from rebalance_side_moves(2) [OF r1, of "''negative''"] assms(2)
  have "has_moves r1 ''negative'' ms_n" by (simp add: has_moves_def)
  from rebalance_side_total [OF this] r1 show ?thesis
    by (simp add: rebalance_notable_moves_def)
qed

lemma rebalance_labels:
  assumes "rebalance_notable_moves result winner = Inr r'"
  shows "labels_of r' ''affirmative'' = map (\<lambda>l. Some (JStr l)) (target_of (is_winner winner ''affirmative''))"
    and "labels_of r' ''negative'' = map (\<lambda>l. Some (JStr l)) (target_of (is_winner winner ''negative''))"
    and "times_of r' ''affirmative'' = map (\<lambda>s. Some (JStr s)) SPEECH_SLOTS"
    and "times_of r' ''negative'' = map (\<lambda>s. Some (JStr s)) SPEECH_SLOTS"
  using rebalance_notable_moves_Inr [OF assms]
  by (auto simp: labels_of_def times_of_def good_moves_def)

lemma rebalance_has_moves:
  assumes "rebalance_notable_moves result winner = Inr r'"
  shows "\<exists>ms_a ms_n. has_moves r' ''affirmative'' ms_a \<and> has_moves r' ''negative'' ms_n"
  using rebalance_notable_moves_Inr [OF assms]
  by (auto simp: has_moves_def good_moves_def)

section \<open>The rebalancer's label distribution\<close>

lemma ex_verdict_has_moves:
  "has_moves ex_verdict ''affirmative'' []"
  "has_moves ex_verdict ''negative'' (replicate 5 default_move)"
  by (simp_all add: has_moves_def ex_verdict_def notable_moves_of_def default_move_is_move)

text \<open>
  Claim C1. For a finalized winner AFFIRMATIVE or NEGATIVE, the rebalancer returns on every
  verdict that holds a list of moves for each side, whatever the length of the lists (empty,
  or longer than four); and whenever it returns, each side has four labels, the winning
  side's with strictly more positive (brilliant, great) than negative (inaccuracy, blunder)
  labels and the losing side's with strictly more negative than positive ones.
\<close>

theorem C1_winner_label_majority:
  assumes "winner = JStr ''AFFIRMATIVE'' \<or> winner = JStr ''NEGATIVE''"
  shows "(has_moves result ''affirmative'' ms_a \<and> has_moves result ''negative'' ms_n \<longrightarrow>
           (\<exists>r'. rebalance_notable_moves result winner = Inr r')) \<and>
         (\<forall>r'. rebalance_notable_moves result winner = Inr r' \<longrightarrow>
           length (labels_of r' ''affirmative'') = 4 \<and> length (labels_of r' ''negative'') = 4 \<and>
           (winner = JStr ''AFFIRMATIVE'' \<longrightarrow>
              negatives (labels_of r' ''affirmative'') < positives (labels_of r' ''affirmative'') \<and>
              positives (labels_of r' ''negative'') < negatives (labels_of r' ''negative'')) \<and>
           (winner = JStr ''NEGATIVE'' \<longrightarrow>
              negatives (labels_of r' ''negative'') < positives (labels_of r' ''negative'') \<and>
              positives (labels_of r' ''affirmative'') < negatives (labels_of r' ''affirmative'')))"
proof (intro conjI allI impI)
  assume "has_moves result ''affirmative'' ms_a \<and> has_moves result ''negative'' ms_n"
  then show "\<exists>r'. rebalance_notable_moves result winner = Inr r'"
    using rebalance_notable_moves_total by blast
next
  fix r' assume r': "rebalance_notable_moves result winner = Inr r'"
  note l = rebalance_labels(1,2) [OF r']
  show "length (labels_of r' ''affirmative'') = 4" "length (labels_of r' ''negative'') = 4"
    by (simp_all add: l target_of_def winner_target_def loser_target_def)
  { assume "winner = JStr ''AFFIRMATIVE''"
    then show "negatives (labels_of r' ''affirmative'') < positives (labels_of r' ''affirmative'')"
      "positives (labels_of r' ''negative'') < negatives (labels_of r' ''negative'')"
      by (simp_all add: l target_of_def is_winner_def winner_target_def loser_target_def
            positives_def negatives_def) }
  { assume "winner = JStr ''NEGATIVE''"
    then show "negatives (labels_of r' ''negative'') < positives (labels_of r' ''negative'')"
      "positives (labels_of r' ''affirmative'') < negatives (labels_of r' ''affirmative'')"
      by (simp_all add: l target_of_def is_winner_def winner_target_def loser_target_def
            positives_def negatives_def) }
qed

theorem C1_winner_label_majority_witness:
  "\<exists>r'. rebalance_notable_moves ex_verdict (JStr ''AFFIRMATIVE'') = Inr r' \<and>
      negatives (labels_of r' ''affirmative'') < positives (labels_of r' ''affirmative'') \<and>
      positives (labels_of r' ''negative'') < negatives (labels_of r' ''negative'')"
  using C1_winner_label_majority [of "JStr ''AFFIRMATIVE''" ex_verdict "[]" "replicate 5 default_move"] ex_verdict_has_moves
  by auto

text \<open>
  Claim C9. The rebalancer is idempotent on labels: after a first run that returned, a second
  run with the same winner returns too, and each side's label sequence is the one the first
  run produced. (The first run returns on every verdict that holds a list of moves for each
  side.)
\<close>

theorem C9_rebalance_idempotent_labels:
  "(has_moves result ''affirmative'' ms_a \<and> has_moves result ''negative'' ms_n \<longrightarrow>
      (\<exists>r1. rebalance_notable_moves result winner = Inr r1)) \<and>
   (\<forall>r1. rebalance_notable_moves result winner = Inr r1 \<longrightarrow>
      (\<exists>r2. rebalance_notable_moves r1 winner = Inr r2 \<and>
         labels_of r2 ''affirmative'' = labels_of r1 ''affirmative'' \<and>
         labels_of r2 ''negative'' = labels_of r1 ''negative''))"
proof (intro conjI allI impI)
  assume "has_moves result ''affirmative'' ms_a \<and> has_moves result ''negative'' ms_n"
  then show "\<exists>r1. rebalance_notable_moves result winner = Inr r1"
    using rebalance_notable_moves_total by blast
next
  fix r1 assume r1: "rebalance_notable_moves result winner = Inr r1"
  from rebalance_has_moves [OF r1] rebalance_notable_moves_total
  obtain r2 where r2: "rebalance_notable_moves r1 winner = Inr r2" by blast
  from rebalance_labels(1,2) [OF r1] rebalance_labels(1,2) [OF r2] r2
  show "\<exists>r2. rebalance_notable_moves r1 winner = Inr r2 \<and>
         labels_of r2 ''affirmative'' = labels_of r1 ''affirmative'' \<and>
         labels_of r2 ''negative'' = labels_of r1 ''negative''"
    by simp
qed

theorem C9_rebalance_idempotent_labels_witness:
  "\<exists>r1 r2. rebalance_notable_moves ex_verdict (JStr ''NEGATIVE'') = Inr r1 \<and>
     rebalance_notable_moves r1 (JStr ''NEGATIVE'') = Inr r2 \<and>
     labels_of r2 ''affirmative'' = labels_of r1 ''affirmative'' \<and>
     labels_of r2 ''negative'' = labels_of r1 ''negative''"
  using C9_rebalance_idempotent_labels [of ex_verdict "[]" "replicate 5 default_move" "JStr ''NEGATIVE''"] ex_verdict_has_moves
  by blast

text \<open>
  Claim C10. With winner TIE both sides receive the losing-side template
  [inaccuracy, blunder, good, great]. A side receives the winning template
  [brilliant, great, good, inaccuracy] exactly when the winner is that side, spelled
  AFFIRMATIVE or NEGATIVE; with any other winner value it receives the losing template.
\<close>

theorem C10_tie_gets_losing_template:
  "(has_moves result ''affirmative'' ms_a \<and> has_moves result ''negative'' ms_n \<longrightarrow>
      (\<exists>r'. rebalance_notable_moves result winner = Inr r')) \<and>
   (\<forall>r'. rebalance_notable_moves result winner = Inr r' \<longrightarrow>
      (winner = JStr ''TIE'' \<longrightarrow>
         labels_of r' ''affirmative'' = map (\<lambda>l. Some (JStr l)) loser_target \<and>
         labels_of r' ''negative'' = map (\<lambda>l. Some (JStr l)) loser_target) \<and>
      (labels_of r' ''affirmative'' = map (\<lambda>l. Some (JStr l)) winner_target \<longleftrightarrow>
         winner = JStr ''AFFIRMATIVE'') \<and>
      (labels_of r' ''negative'' = map (\<lambda>l. Some (JStr l)) winner_target \<longleftrightarrow>
         winner = JStr ''NEGATIVE'') \<and>
      (winner \<noteq> JStr ''AFFIRMATIVE'' \<longrightarrow>
         labels_of r' ''affirmative'' = map (\<lambda>l. Some (JStr l)) loser_target) \<and>
      (winner \<noteq> JStr ''NEGATIVE'' \<longrightarrow>
         labels_of r' ''negative'' = map (\<lambda>l. Some (JStr l)) loser_target))"
proof (intro conjI allI impI)
  assume "has_moves result ''affirmative'' ms_a \<and> has_moves result ''negative'' ms_n"
  then show "\<exists>r'. rebalance_notable_moves result winner = Inr r'"
    using rebalance_notable_moves_total by blast
next
  fix r' assume r': "rebalance_notable_moves result winner = Inr r'"
  note l = rebalance_labels(1,2) [OF r']
  have ne: "map (\<lambda>l. Some (JStr l)) loser_target \<noteq> map (\<lambda>l. Some (JStr l)) winner_target"
    by (simp add: winner_target_def loser_target_def)
  show "labels_of r' ''affirmative'' = map (\<lambda>l. Some (JStr l)) winner_target \<longleftrightarrow>
         winner = JStr ''AFFIRMATIVE''"
    using ne by (auto simp: l target_of_def is_winner_def)
  show "labels_of r' ''negative'' = map (\<lambda>l. Some (JStr l)) winner_target \<longleftrightarrow>
         winner = JStr ''NEGATIVE''"
    using ne by (auto simp: l target_of_def is_winner_def)
  { assume "winner = JStr ''TIE''"
    then show "labels_of r' ''affirmative'' = map (\<lambda>l. Some (JStr l)) loser_target"
      "labels_of r' ''negative'' = map (\<lambda>l. Some (JStr l)) loser_target"
      by (simp_all add: l target_of_def is_winner_def) }
  { assume "winner \<noteq> JStr ''AFFIRMATIVE''"
    then show "labels_of r' ''affirmative'' = map (\<lambda>l. Some (JStr l)) loser_target"
      by (simp add: l target_of_def is_winner_def) }
  { assume "winner \<noteq> JStr ''NEGATIVE''"
    then show "labels_of r' ''negative'' = map (\<lambda>l. Some (JStr l)) loser_target"
      by (simp add: l target_of_def is_winner_def) }
qed

theorem C10_tie_gets_losing_template_witness:
  "\<exists>r'. rebalance_notable_moves ex_verdict (JStr ''TIE'') = Inr r' \<and>
     labels_of r' ''affirmative'' = map (\<lambda>l. Some (JStr l)) loser_target \<and>
     labels_of r' ''negative'' = map (\<lambda>l. Some (JStr l)) loser_target"
  using C10_tie_gets_losing_template [of ex_verdict "[]" "replicate 5 default_move" "JStr ''TIE''"] ex_verdict_has_moves
  by blast

section \<open>Proofs: the numeric sanitizer\<close>

lemma py_int_clip:
  assumes "0 \<le> hi"
  shows "py_int (clip p v 0 hi) = Inr (spec_clamp p v hi)"
proof (cases "py_float p v")
  case (Inl e)
  then show ?thesis by (simp add: clip_def spec_clamp_def)
next
  case (Inr f)
  show ?thesis
  proof (cases f)
    case (Finite x)
    have "0 < x \<Longrightarrow> trunc x = \<lfloor>x\<rfloor>" by (simp add: trunc_def)
    with Inr Finite assms show ?thesis
      by (auto simp: clip_def spec_clamp_def py_min_def)
  qed (use Inr assms in \<open>auto simp: clip_def spec_clamp_def py_min_def\<close>)
qed

lemma spec_clamp_bounds: "0 \<le> hi \<Longrightarrow> 0 \<le> spec_clamp p v hi \<and> spec_clamp p v hi \<le> hi"
  by (auto simp: spec_clamp_def floor_le_iff le_floor_iff split: sum.splits pyfloat.splits)

lemma getd_dict_set: "getd (dict_set kv k v) k' d = (if k' = k then v else getd kv k' d)"
  by (simp add: getd_def map_of_dict_set)

lemma clip_field_eq:
  "0 \<le> hi \<Longrightarrow> clip_field p kv key 0 hi =
     Inr (dict_set kv key (JInt (spec_clamp p (getd kv key (JInt 0)) hi)))"
  by (simp add: clip_field_def py_int_clip getd_def)

lemma enforce_speaker_eq:
  "0 \<le> m1 \<Longrightarrow> 0 \<le> m2 \<Longrightarrow> 0 \<le> m3 \<Longrightarrow>
     enforce_speaker p (JObj kv) m1 m2 m3 = Inr (JObj (fix_speaker p kv m1 m2 m3))"
  by (simp add: enforce_speaker_def clip_field_eq fix_speaker_def getd_dict_set)

lemma enforce_speaker_Inl: "\<forall>kv. s \<noteq> JObj kv \<Longrightarrow> enforce_speaker p s m1 m2 m3 = Inl AttributeError"
  by (cases s) (simp_all add: enforce_speaker_def)

lemma map_of_fix_speaker:
  "map_of (fix_speaker p kv m1 m2 m3) ''matter'' = Some (JInt (spec_clamp p (getd kv ''matter'' (JInt 0)) m1))"
  "map_of (fix_speaker p kv m1 m2 m3) ''manner'' = Some (JInt (spec_clamp p (getd kv ''manner'' (JInt 0)) m2))"
  "map_of (fix_speaker p kv m1 m2 m3) ''method'' = Some (JInt (spec_clamp p (getd kv ''method'' (JInt 0)) m3))"
  by (simp_all add: fix_speaker_def map_of_dict_set)

lemma fixed_speaker_iff:
  "fixed_speaker p so so' spk \<longleftrightarrow>
     (\<exists>kv. getd so spk (JObj []) = JObj kv \<and>
        map_of so' spk = Some (JObj (fix_speaker p kv (cap spk ''matter'') (cap spk ''manner'') (cap spk ''method''))))"
  by (auto simp: fixed_speaker_def split: json.splits)

lemma enforce_speakers_Inr:
  assumes "\<forall>spk\<in>set spks. \<exists>kv. getd so spk (JObj []) = JObj kv" "distinct spks" "''reply'' \<notin> set spks"
  shows "\<exists>so'. enforce_speakers p so spks = Inr so' \<and>
           (\<forall>k. k \<notin> set spks \<longrightarrow> map_of so' k = map_of so k) \<and>
           (\<forall>spk\<in>set spks. fixed_speaker p so so' spk)"
  using assms
proof (induction spks arbitrary: so)
  case Nil
  then show ?case by simp
next
  case (Cons spk spks)
  from Cons.prems obtain kv where kv: "getd so spk (JObj []) = JObj kv" by auto
  let ?so1 = "dict_set so spk (JObj (fix_speaker p kv 40 30 30))"
  have step: "enforce_speakers p so (spk # spks) = enforce_speakers p ?so1 spks"
    using kv by (simp add: enforce_speaker_eq getd_def)
  from Cons.prems have "\<forall>s\<in>set spks. \<exists>kv. getd ?so1 s (JObj []) = JObj kv"
    by (auto simp: getd_dict_set)
  from Cons.IH [OF this] Cons.prems obtain so' where
    so': "enforce_speakers p ?so1 spks = Inr so'"
      "\<forall>k. k \<notin> set spks \<longrightarrow> map_of so' k = map_of ?so1 k"
      "\<forall>s\<in>set spks. fixed_speaker p ?so1 so' s"
    by auto
  from Cons.prems have ne: "spk \<notin> set spks" "spk \<noteq> ''reply''" by auto
  have "fixed_speaker p so so' spk"
    using so'(2) ne kv by (simp add: fixed_speaker_iff map_of_dict_set cap_def)
  moreover have "\<forall>s\<in>set spks. fixed_speaker p so so' s"
  proof
    fix s assume s: "s \<in> set spks"
    with ne have "s \<noteq> spk" by auto
    moreover from so'(3) s have "fixed_speaker p ?so1 so' s" by blast
    ultimately show "fixed_speaker p so so' s"
      by (simp add: fixed_speaker_iff getd_dict_set)
  qed
  moreover have "\<forall>k. k \<notin> set (spk # spks) \<longrightarrow> map_of so' k = map_of so k"
    using so'(2) by (simp add: map_of_dict_set)
  ultimately show ?case using step so'(1) by simp
qed

lemma enforce_side_Inr:
  assumes so: "getd sc side (JObj []) = JObj so"
    and spk: "\<forall>spk\<in>{''speaker1'', ''speaker2'', ''speaker3'', ''reply''}. \<exists>kv. getd so spk (JObj []) = JObj kv"
  shows "\<exists>sc' so'. enforce_side p sc side = Inr sc' \<and>
           (\<forall>k. k \<noteq> side \<longrightarrow> map_of sc' k = map_of sc k) \<and>
           map_of sc' side = Some (JObj so') \<and>
           (\<forall>spk\<in>{''speaker1'', ''speaker2'', ''speaker3'', ''reply''}. fixed_speaker p so so' spk)"
proof -
  let ?spks = "[''speaker1'', ''speaker2'', ''speaker3'']"
  from spk have "\<forall>spk\<in>set ?spks. \<exists>kv. getd so spk (JObj []) = JObj kv" by simp
  from enforce_speakers_Inr [OF this, of p] obtain so1 where
    so1: "enforce_speakers p so ?spks = Inr so1"
      "\<forall>k. k \<notin> set ?spks \<longrightarrow> map_of so1 k = map_of so k"
      "\<forall>spk\<in>set ?spks. fixed_speaker p so so1 spk"
    by auto
  from spk obtain kv where kv: "getd so ''reply'' (JObj []) = JObj kv" by auto
  from so1(2) have rep: "map_of so1 ''reply'' = map_of so ''reply''" by simp
  let ?so' = "dict_set so1 ''reply'' (JObj (fix_speaker p kv 20 15 15))"
  have run: "enforce_side p sc side = Inr (dict_set sc side (JObj ?so'))"
    using so so1(1) kv rep by (simp add: enforce_side_def getd_def enforce_speaker_eq)
  have "fixed_speaker p so ?so' ''reply''"
    using kv by (simp add: fixed_speaker_iff map_of_dict_set cap_def)
  moreover have "fixed_speaker p so ?so' s" if "s \<in> set ?spks" for s
  proof -
    from that have "s \<noteq> ''reply''" by auto
    moreover from so1(3) that have "fixed_speaker p so so1 s" by blast
    ultimately show ?thesis by (simp add: fixed_speaker_iff map_of_dict_set)
  qed
  ultimately have "\<forall>spk\<in>{''speaker1'', ''speaker2'', ''speaker3'', ''reply''}. fixed_speaker p so ?so' spk"
    by simp
  with run show ?thesis by (simp add: map_of_dict_set)
qed

lemma obj_or_missing_getd:
  assumes "obj_or_missing (map_of kv k)"
  shows "\<exists>kv'. getd kv k (JObj []) = JObj kv' \<and>
           (\<forall>k'. Option.bind (map_of kv k) (\<lambda>j. lookup j k') = map_of kv' k')"
proof (cases "map_of kv k")
  case None
  then show ?thesis by (simp add: getd_def)
next
  case (Some j)
  with assms obtain kv' where "j = JObj kv'" by (cases j) auto
  with Some show ?thesis by (simp add: getd_def)
qed

lemma obj_or_missing_bind:
  assumes "obj_or_missing (Option.bind m (\<lambda>j. lookup j k))" "\<forall>k'. m' k' = Option.bind m (\<lambda>j. lookup j k')"
  shows "obj_or_missing (m' k)"
  using assms by simp

lemma speaker_view:
  assumes ok: "containers_ok result" and side: "side \<in> {''affirmative'', ''negative''}"
  shows "\<exists>r sc so. result = JObj r \<and> getd r ''scores'' (JObj []) = JObj sc \<and>
           getd sc side (JObj []) = JObj so \<and>
           (\<forall>spk\<in>{''speaker1'', ''speaker2'', ''speaker3'', ''reply''}.
              \<exists>kv. getd so spk (JObj []) = JObj kv \<and>
                (\<forall>f. raw_score result side spk f = getd kv f (JInt 0)))"
proof -
  from ok obtain r where r: "result = JObj r"
    by (cases result) (simp_all add: containers_ok_def)
  from ok r have "obj_or_missing (map_of r ''scores'')" by (simp add: containers_ok_def)
  from obj_or_missing_getd [OF this] obtain sc where
    sc: "getd r ''scores'' (JObj []) = JObj sc"
      "\<And>k. side_of result k = map_of sc k"
    by (auto simp: side_of_def r)
  from ok side have "obj_or_missing (side_of result side)"
    unfolding containers_ok_def by blast
  then have "obj_or_missing (map_of sc side)" by (simp add: sc(2))
  from obj_or_missing_getd [OF this] obtain so where
    so: "getd sc side (JObj []) = JObj so"
      "\<And>k. speaker_of result side k = map_of so k"
    by (auto simp: speaker_of_def sc(2))
  have "\<exists>kv. getd so spk (JObj []) = JObj kv \<and>
                (\<forall>f. raw_score result side spk f = getd kv f (JInt 0))"
    if spk: "spk \<in> {''speaker1'', ''speaker2'', ''speaker3'', ''reply''}" for spk
  proof -
    from ok side spk have "obj_or_missing (speaker_of result side spk)"
      unfolding containers_ok_def by blast
    then have "obj_or_missing (map_of so spk)" by (simp add: so(2))
    from obj_or_missing_getd [OF this] obtain kv where
      kv: "getd so spk (JObj []) = JObj kv"
        "\<And>f. Option.bind (map_of so spk) (\<lambda>j. lookup j f) = map_of kv f"
      by auto
    have "score_of result side spk f = map_of kv f" for f
      using kv(2) [of f] so(2) [of spk]
      by (simp add: score_of_def speaker_of_def side_of_def)
    then have "\<forall>f. raw_score result side spk f = getd kv f (JInt 0)"
      by (simp add: raw_score_def getd_def)
    with kv(1) show ?thesis by blast
  qed
  with r sc(1) so(1) show ?thesis by blast
qed

lemma fixed_speaker_field:
  assumes "fixed_speaker p so so' spk" "getd so spk (JObj []) = JObj kv"
    and "field \<in> {''matter'', ''manner'', ''method''}"
  shows "Option.bind (map_of so' spk) (\<lambda>s. lookup s field) =
           Some (JInt (spec_clamp p (getd kv field (JInt 0)) (cap spk field)))"
  using assms by (auto simp: fixed_speaker_iff map_of_fix_speaker)

lemma enforce_ranges_fixed:
  assumes ok: "containers_ok result"
  shows "\<exists>r'. enforce_ranges p result = Inr r' \<and>
           (\<forall>side\<in>{''affirmative'', ''negative''}.
            \<forall>spk\<in>{''speaker1'', ''speaker2'', ''speaker3'', ''reply''}.
            \<forall>field\<in>{''matter'', ''manner'', ''method''}.
              score_of r' side spk field =
                Some (JInt (spec_clamp p (raw_score result side spk field) (cap spk field))))"
proof -
  let ?spks = "{''speaker1'', ''speaker2'', ''speaker3'', ''reply''}"
  from speaker_view [OF ok, of "''affirmative''"] obtain r sc soa where
    r: "result = JObj r" and sc: "getd r ''scores'' (JObj []) = JObj sc" and
    soa: "getd sc ''affirmative'' (JObj []) = JObj soa" and
    va: "\<forall>spk\<in>?spks. \<exists>kv. getd soa spk (JObj []) = JObj kv \<and>
                (\<forall>f. raw_score result ''affirmative'' spk f = getd kv f (JInt 0))"
    by auto
  from speaker_view [OF ok, of "''negative''"] r sc obtain son where
    son: "getd sc ''negative'' (JObj []) = JObj son" and
    vn: "\<forall>spk\<in>?spks. \<exists>kv. getd son spk (JObj []) = JObj kv \<and>
                (\<forall>f. raw_score result ''negative'' spk f = getd kv f (JInt 0))"
    by auto
  from va have "\<forall>spk\<in>?spks. \<exists>kv. getd soa spk (JObj []) = JObj kv" by blast
  from enforce_side_Inr [OF soa this, of p] obtain sc1 soa' where
    sc1: "enforce_side p sc ''affirmative'' = Inr sc1"
      "\<forall>k. k \<noteq> ''affirmative'' \<longrightarrow> map_of sc1 k = map_of sc k"
      "map_of sc1 ''affirmative'' = Some (JObj soa')"
      "\<forall>spk\<in>?spks. fixed_speaker p soa soa' spk"
    by blast
  from sc1(2) son have son1: "getd sc1 ''negative'' (JObj []) = JObj son"
    by (simp add: getd_def)
  from vn have "\<forall>spk\<in>?spks. \<exists>kv. getd son spk (JObj []) = JObj kv" by blast
  from enforce_side_Inr [OF son1 this, of p] obtain sc2 son' where
    sc2: "enforce_side p sc1 ''negative'' = Inr sc2"
      "\<forall>k. k \<noteq> ''negative'' \<longrightarrow> map_of sc2 k = map_of sc1 k"
      "map_of sc2 ''negative'' = Some (JObj son')"
      "\<forall>spk\<in>?spks. fixed_speaker p son son' spk"
    by blast
  let ?r' = "JObj (dict_set r ''scores'' (JObj sc2))"
  have run: "enforce_ranges p result = Inr ?r'"
    using r sc sc1(1) sc2(1) by (simp add: enforce_ranges_def getd_def)
  have aff': "map_of sc2 ''affirmative'' = Some (JObj soa')"
    using sc2(2) sc1(3) by simp
  have "score_of ?r' side spk field =
          Some (JInt (spec_clamp p (raw_score result side spk field) (cap spk field)))"
    if side: "side \<in> {''affirmative'', ''negative''}" and spk: "spk \<in> ?spks"
      and field: "field \<in> {''matter'', ''manner'', ''method''}" for side spk field
  proof -
    from side consider "side = ''affirmative''" | "side = ''negative''" by blast
    then show ?thesis
    proof cases
      case 1
      from va spk obtain kv where kv: "getd soa spk (JObj []) = JObj kv"
        "\<forall>f. raw_score result ''affirmative'' spk f = getd kv f (JInt 0)" by blast
      from sc1(4) spk have "fixed_speaker p soa soa' spk" by blast
      from fixed_speaker_field [OF this kv(1) field] kv(2) 1 aff' show ?thesis
        by (simp add: score_of_def map_of_dict_set)
    next
      case 2
      from vn spk obtain kv where kv: "getd son spk (JObj []) = JObj kv"
        "\<forall>f. raw_score result ''negative'' spk f = getd kv f (JInt 0)" by blast
      from sc2(4) spk have "fixed_speaker p son son' spk" by blast
      from fixed_speaker_field [OF this kv(1) field] kv(2) 2 sc2(3) show ?thesis
        by (simp add: score_of_def map_of_dict_set)
    qed
  qed
  with run show ?thesis by blast
qed

section \<open>Proofs: when the numeric sanitizer returns\<close>

lemma enforce_speaker_Inr_obj: "enforce_speaker p s m1 m2 m3 = Inr s' \<Longrightarrow> \<exists>kv. s = JObj kv"
  by (cases s) (simp_all add: enforce_speaker_def)

lemma getd_obj_or_missing: "getd kv k (JObj []) = JObj x \<Longrightarrow> obj_or_missing (map_of kv k)"
  by (cases "map_of kv k") (auto simp: getd_def)

lemma enforce_speakers_Inr_conv:
  assumes "enforce_speakers p so spks = Inr so'" "distinct spks"
  shows "\<forall>spk\<in>set spks. \<exists>kv. getd so spk (JObj []) = JObj kv"
  using assms
proof (induction spks arbitrary: so)
  case Nil
  then show ?case by simp
next
  case (Cons spk spks)
  from Cons.prems(1) obtain s where
    s: "enforce_speaker p (getd so spk (JObj [])) 40 30 30 = Inr s" and
    rest: "enforce_speakers p (dict_set so spk s) spks = Inr so'"
    by (auto simp: ebind_Inr_iff getd_def)
  from enforce_speaker_Inr_obj [OF s] obtain kv where kv: "getd so spk (JObj []) = JObj kv" by blast
  from Cons.IH [OF rest] Cons.prems(2)
  have "\<forall>x\<in>set spks. \<exists>kv. getd (dict_set so spk s) x (JObj []) = JObj kv" by simp
  moreover from Cons.prems(2) have "\<forall>x\<in>set spks. x \<noteq> spk" by auto
  ultimately have "\<forall>x\<in>set spks. \<exists>kv. getd so x (JObj []) = JObj kv"
    by (simp add: getd_dict_set)
  with kv show ?case by simp
qed

lemma enforce_side_Inr_conv:
  assumes "enforce_side p sc side = Inr sc'"
  shows "\<exists>so. getd sc side (JObj []) = JObj so \<and>
           (\<forall>spk\<in>{''speaker1'', ''speaker2'', ''speaker3'', ''reply''}. \<exists>kv. getd so spk (JObj []) = JObj kv)"
proof -
  from assms obtain so where so: "getd sc side (JObj []) = JObj so"
    by (cases "getd sc side (JObj [])") (auto simp: enforce_side_def getd_def)
  with assms obtain so1 rep where
    so1: "enforce_speakers p so [''speaker1'', ''speaker2'', ''speaker3''] = Inr so1" and
    rep: "enforce_speaker p (getd so1 ''reply'' (JObj [])) 20 15 15 = Inr rep"
    by (auto simp: enforce_side_def ebind_Inr_iff getd_def)
  from enforce_speakers_Inr_conv [OF so1]
  have sp: "\<forall>spk\<in>set [''speaker1'', ''speaker2'', ''speaker3'']. \<exists>kv. getd so spk (JObj []) = JObj kv"
    by simp
  from enforce_speakers_Inr [OF sp, of p] so1
  have "map_of so1 ''reply'' = map_of so ''reply''" by auto
  with enforce_speaker_Inr_obj [OF rep] have "\<exists>kv. getd so ''reply'' (JObj []) = JObj kv"
    by (simp add: getd_def)
  with sp so show ?thesis by simp
qed

lemma enforce_ranges_Inr_conv:
  assumes "enforce_ranges p (JObj r) = Inr r'"
  shows "containers_ok (JObj r)"
proof -
  from assms obtain sc where sc: "getd r ''scores'' (JObj []) = JObj sc"
    by (cases "getd r ''scores'' (JObj [])") (auto simp: enforce_ranges_def getd_def)
  with assms obtain sc1 sc2 where
    sc1: "enforce_side p sc ''affirmative'' = Inr sc1" and
    sc2: "enforce_side p sc1 ''negative'' = Inr sc2"
    by (auto simp: enforce_ranges_def ebind_Inr_iff getd_def)
  from enforce_side_Inr_conv [OF sc1] obtain soa where
    soa: "getd sc ''affirmative'' (JObj []) = JObj soa"
      "\<forall>spk\<in>{''speaker1'', ''speaker2'', ''speaker3'', ''reply''}. \<exists>kv. getd soa spk (JObj []) = JObj kv"
    by blast
  from enforce_side_Inr [OF soa, of p] sc1
  have fr: "map_of sc1 ''negative'' = map_of sc ''negative''" by auto
  from enforce_side_Inr_conv [OF sc2] fr obtain son where
    son: "getd sc ''negative'' (JObj []) = JObj son"
      "\<forall>spk\<in>{''speaker1'', ''speaker2'', ''speaker3'', ''reply''}. \<exists>kv. getd son spk (JObj []) = JObj kv"
    by (auto simp: getd_def)
  note o1 = getd_obj_or_missing [OF sc]
  from obj_or_missing_getd [OF o1] sc have s1: "\<And>k. side_of (JObj r) k = map_of sc k"
    by (auto simp: side_of_def)
  have side: "obj_or_missing (side_of (JObj r) side) \<and>
      (\<forall>spk\<in>{''speaker1'', ''speaker2'', ''speaker3'', ''reply''}. obj_or_missing (speaker_of (JObj r) side spk))"
    if so: "getd sc side (JObj []) = JObj so"
      "\<forall>spk\<in>{''speaker1'', ''speaker2'', ''speaker3'', ''reply''}. \<exists>kv. getd so spk (JObj []) = JObj kv"
    for side so
  proof -
    note o2 = getd_obj_or_missing [OF so(1)]
    from obj_or_missing_getd [OF o2] so(1) have s2: "\<And>k. speaker_of (JObj r) side k = map_of so k"
      by (auto simp: speaker_of_def s1)
    from so(2) have "\<forall>spk\<in>{''speaker1'', ''speaker2'', ''speaker3'', ''reply''}. obj_or_missing (map_of so spk)"
      by (blast intro: getd_obj_or_missing)
    with o2 show ?thesis by (simp add: s1 s2)
  qed
  from side [OF soa] side [OF son] o1 show ?thesis
    by (simp add: containers_ok_def)
qed

text \<open>
  The sanitizer returns exactly on the responses that are not a dict (returned as they
  are) and on the dicts whose score containers are dicts or missing.
\<close>

lemma enforce_ranges_returns_iff:
  "(\<exists>r'. enforce_ranges p result = Inr r') \<longleftrightarrow> (\<forall>r. result \<noteq> JObj r) \<or> containers_ok result"
proof (cases result)
  case (JObj r)
  with enforce_ranges_Inr_conv [of p r] enforce_ranges_fixed [of result p] show ?thesis by auto
qed (simp_all add: enforce_ranges_def)

section \<open>The numeric sanitizer's guarantees\<close>






text \<open>
  Claim C7 says that \<^verbatim>\<open>enforce_ranges\<close> returns for every raw model response, of any JSON
  shape. It does not: where a speaker object is expected and the response holds a number,
  \<^verbatim>\<open>s.get\<close> raises AttributeError (the guard \<^verbatim>\<open>isinstance(result, dict)\<close> covers the
  top level only); likewise when \<open>scores\<close> is \<^verbatim>\<open>null\<close>.
\<close>

theorem C7_enforce_ranges_raises:
  "enforce_ranges str_to_float
     (JObj [(''scores'', JObj [(''affirmative'', JObj [(''speaker1'', JInt 85)])])]) =
   Inl AttributeError"
  by (simp add: enforce_ranges_def enforce_side_def enforce_speaker_def)

lemma enforce_ranges_raises_null_scores:
  "enforce_ranges str_to_float (JObj [(''scores'', JNull)]) = Inl AttributeError"
  by (simp add: enforce_ranges_def)

section \<open>Proofs: what each stage of the pipeline leaves alone\<close>

lemma lookup_set_key: "set_key r k v = Inr r' \<Longrightarrow> lookup r' k' = (if k' = k then Some v else lookup r k')"
  by (cases r) (auto simp: map_of_dict_set)

lemma enforce_ranges_frame:
  assumes "enforce_ranges p r = Inr r'" "k \<noteq> ''scores''"
  shows "lookup r' k = lookup r k"
proof (cases r)
  case (JObj kv)
  with assms(1) obtain sc where "r' = JObj (dict_set kv ''scores'' (JObj sc))"
    by (auto simp: enforce_ranges_def ebind_Inr_iff split: json.splits)
  with JObj assms(2) show ?thesis by (simp add: map_of_dict_set)
qed (use assms in \<open>simp_all add: enforce_ranges_def\<close>)

lemma ensure_analysis_defaults_Inr:
  assumes "ensure_analysis_defaults r t = Inr r'"
  shows "\<exists>kv a. r = JObj kv \<and> r' = JObj (dict_set kv ''analysis'' (JObj a))"
  using assms
  by (cases r) (auto simp: ensure_analysis_defaults_def ebind_Inr_iff Let_def)

lemma ensure_analysis_defaults_frame:
  assumes "ensure_analysis_defaults r t = Inr r'" "k \<noteq> ''analysis''"
  shows "lookup r' k = lookup r k"
  using ensure_analysis_defaults_Inr [OF assms(1)] assms(2)
  by (auto simp: map_of_dict_set)

lemma sanitize_frame:
  assumes "sanitize e r t = Inr r'" "k \<noteq> ''analysis''" "k \<noteq> ''scores''"
  shows "lookup r' k = lookup r k"
proof -
  from assms(1) obtain x where x: "enforce_ranges (env_float e) r = Inr x"
    "ensure_analysis_defaults x t = Inr r'"
    by (auto simp: sanitize_def ebind_Inr_iff)
  from ensure_analysis_defaults_frame [OF x(2) assms(2)] enforce_ranges_frame [OF x(1) assms(3)]
  show ?thesis by simp
qed

lemma validated_frame:
  assumes "validated e r t = Inr r'" "k \<noteq> ''analysis''" "k \<noteq> ''scores''"
  shows "lookup r' k = lookup r k"
  using assms
  by (auto simp: validated_def ebind_Inr_iff split: if_splits dest: sanitize_frame)

lemma rebalance_side_frame:
  assumes "rebalance_side r w side = Inr r'" "k \<noteq> ''analysis''"
  shows "lookup r' k = lookup r k"
  using rebalance_side_Inr [OF assms(1)] assms(2) by (auto simp: map_of_dict_set)

lemma rebalance_frame:
  assumes "rebalance_notable_moves r w = Inr r'" "k \<noteq> ''analysis''"
  shows "lookup r' k = lookup r k"
proof -
  from assms(1) obtain x where x: "rebalance_side r w ''affirmative'' = Inr x"
    "rebalance_side x w ''negative'' = Inr r'"
    by (auto simp: rebalance_notable_moves_def ebind_Inr_iff)
  from rebalance_side_frame [OF x(2) assms(2)] rebalance_side_frame [OF x(1) assms(2)]
  show ?thesis by simp
qed

lemma dict_get_lookup: "dict_get r k d = Inr v \<Longrightarrow> v = (case lookup r k of Some x \<Rightarrow> x | None \<Rightarrow> d)"
  by (cases r) auto

lemma tie_break_winner:
  assumes "tie_break r a n = Inr r'"
  shows "lookup r' ''winner'' =
           (if lookup r ''winner'' = Some (JStr ''TIE'')
            then Some (JStr (if n < a then ''AFFIRMATIVE'' else if a < n then ''NEGATIVE'' else ''TIE''))
            else lookup r ''winner'')"
    and "k \<noteq> ''winner'' \<Longrightarrow> lookup r' k = lookup r k"
proof -
  from assms obtain w where w: "dict_get r ''winner'' JNull = Inr w"
    by (auto simp: tie_break_def ebind_Inr_iff)
  note wl = dict_get_lookup [OF w]
  show "lookup r' ''winner'' =
           (if lookup r ''winner'' = Some (JStr ''TIE'')
            then Some (JStr (if n < a then ''AFFIRMATIVE'' else if a < n then ''NEGATIVE'' else ''TIE''))
            else lookup r ''winner'')"
  proof (cases "lookup r ''winner'' = Some (JStr ''TIE'')")
    case True
    with wl have "w = JStr ''TIE''" by simp
    with assms w True show ?thesis
      by (auto simp: tie_break_def Let_def lookup_set_key split: if_splits)
  next
    case False
    with wl have "w \<noteq> JStr ''TIE''" by (auto split: option.splits)
    with assms w False show ?thesis by (simp add: tie_break_def)
  qed
  show "lookup r' k = lookup r k" if "k \<noteq> ''winner''"
    using assms w that
    by (auto simp: tie_break_def Let_def lookup_set_key split: if_splits)
qed

lemma judge_Inr:
  assumes "judge e t = Inr v"
  shows "\<exists>m r1 r2 a n r3 r4 w r5 s.
     env_chat e t = Inr m \<and> sanitize e m t = Inr r1 \<and> validated e r1 t = Inr r2 \<and>
     compute_totals (env_int e) r2 = Inr (a, n) \<and>
     set_key r2 ''totals'' (totals_dict a n) = Inr r3 \<and>
     tie_break r3 a n = Inr r4 \<and>
     dict_get r4 ''winner'' (JStr ''TIE'') = Inr w \<and>
     rebalance_notable_moves r4 w = Inr r5 \<and>
     final_statement a n = Inr s \<and>
     set_key r5 ''final_statement'' (JStr s) = Inr v"
  using assms by (auto simp: judge_def ebind_Inr_iff)

lemma main_not_low: "\<not> is_low_content t \<Longrightarrow> main e t = (k, x) \<Longrightarrow> k = 1 \<and> x = judge e t"
  by (simp add: main_def)

lemma main_low: "is_low_content t \<Longrightarrow> main e t = (0, low_content_verdict)"
  by (simp add: main_def)

lemma subscript_lookup: "subscript r k = (case r of JObj kv \<Rightarrow> (case lookup r k of Some v \<Rightarrow> Inr v | None \<Rightarrow> Inl KeyError) | _ \<Rightarrow> Inl TypeError)"
  by (cases r) simp_all

lemma compute_totals_cong:
  assumes "lookup r ''scores'' = lookup r' ''scores''" "\<exists>kv. r = JObj kv" "\<exists>kv. r' = JObj kv"
  shows "compute_totals p r = compute_totals p r'"
proof -
  from assms have "subscript r ''scores'' = subscript r' ''scores''"
    by (auto simp: subscript_lookup)
  then show ?thesis by (simp add: compute_totals_def)
qed

lemma set_key_Inr: "set_key r k v = Inr r' \<Longrightarrow> \<exists>kv. r = JObj kv \<and> r' = JObj (dict_set kv k v)"
  by (cases r) auto

lemma tie_break_obj: "tie_break r a n = Inr r' \<Longrightarrow> (\<exists>kv. r = JObj kv) \<Longrightarrow> \<exists>kv. r' = JObj kv"
  by (auto simp: tie_break_def ebind_Inr_iff Let_def split: if_splits)

text \<open>The verdict of a run that went through the model: its parts, traced back.\<close>

lemma judge_verdict:
  assumes "judge e t = Inr v"
  shows "\<exists>m a n s. env_chat e t = Inr m \<and>
     compute_totals (env_int e) v = Inr (a, n) \<and>
     lookup v ''totals'' = Some (totals_dict a n) \<and>
     final_statement a n = Inr s \<and>
     lookup v ''final_statement'' = Some (JStr s) \<and>
     lookup v ''winner'' =
       (if lookup m ''winner'' = Some (JStr ''TIE'')
        then Some (JStr (if n < a then ''AFFIRMATIVE'' else if a < n then ''NEGATIVE'' else ''TIE''))
        else lookup m ''winner'') \<and>
     times_of v ''affirmative'' = map (\<lambda>s. Some (JStr s)) SPEECH_SLOTS \<and>
     times_of v ''negative'' = map (\<lambda>s. Some (JStr s)) SPEECH_SLOTS \<and>
     (\<exists>w. w = (case lookup v ''winner'' of Some x \<Rightarrow> x | None \<Rightarrow> JStr ''TIE'') \<and>
        labels_of v ''affirmative'' = map (\<lambda>l. Some (JStr l)) (target_of (is_winner w ''affirmative'')) \<and>
        labels_of v ''negative'' = map (\<lambda>l. Some (JStr l)) (target_of (is_winner w ''negative'')))"
proof -
  from judge_Inr [OF assms] obtain m r1 r2 a n r3 r4 w r5 s where
    m: "env_chat e t = Inr m" and r1: "sanitize e m t = Inr r1" and
    r2: "validated e r1 t = Inr r2" and tot: "compute_totals (env_int e) r2 = Inr (a, n)" and
    r3: "set_key r2 ''totals'' (totals_dict a n) = Inr r3" and
    r4: "tie_break r3 a n = Inr r4" and
    w: "dict_get r4 ''winner'' (JStr ''TIE'') = Inr w" and
    r5: "rebalance_notable_moves r4 w = Inr r5" and
    s: "final_statement a n = Inr s" and
    v: "set_key r5 ''final_statement'' (JStr s) = Inr v"
    by blast
  have lv: "lookup v k = lookup r5 k" if "k \<noteq> ''final_statement''" for k
    using lookup_set_key [OF v, of k] that by simp
  have l5: "lookup r5 k = lookup r4 k" if "k \<noteq> ''analysis''" for k
    using rebalance_frame [OF r5 that] .
  have l4: "lookup r4 k = lookup r3 k" if "k \<noteq> ''winner''" for k
    using tie_break_winner(2) [OF r4 that] .
  have l3: "lookup r3 k = lookup r2 k" if "k \<noteq> ''totals''" for k
    using lookup_set_key [OF r3, of k] that by simp
  have w2: "lookup r2 ''winner'' = lookup m ''winner''"
    using validated_frame [OF r2, of "''winner''"] sanitize_frame [OF r1, of "''winner''"] by simp
  have win: "lookup v ''winner'' =
       (if lookup m ''winner'' = Some (JStr ''TIE'')
        then Some (JStr (if n < a then ''AFFIRMATIVE'' else if a < n then ''NEGATIVE'' else ''TIE''))
        else lookup m ''winner'')"
    using tie_break_winner(1) [OF r4] by (simp add: lv l5 l3 w2)
  have "lookup v ''totals'' = Some (totals_dict a n)"
    using lookup_set_key [OF r3, of "''totals''"] by (simp add: lv l5 l4)
  moreover have "lookup v ''final_statement'' = Some (JStr s)"
    using lookup_set_key [OF v, of "''final_statement''"] by simp
  moreover have "compute_totals (env_int e) v = Inr (a, n)"
  proof -
    have "lookup v ''scores'' = lookup r2 ''scores''" by (simp add: lv l5 l4 l3)
    moreover from set_key_Inr [OF r3] have o2: "\<exists>kv. r2 = JObj kv" by blast
    moreover from set_key_Inr [OF v] have "\<exists>kv. v = JObj kv" by blast
    ultimately show ?thesis using compute_totals_cong [of v r2 "env_int e"] tot by simp
  qed
  moreover have an: "notable_moves_of v side = notable_moves_of r5 side" for side
    by (simp add: notable_moves_of_def lv)
  then have "times_of v side = times_of r5 side" "labels_of v side = labels_of r5 side" for side
    by (simp_all add: times_of_def labels_of_def)
  moreover have "w = (case lookup v ''winner'' of Some x \<Rightarrow> x | None \<Rightarrow> JStr ''TIE'')"
    using dict_get_lookup [OF w] by (simp add: lv l5)
  ultimately show ?thesis using m s win rebalance_labels [OF r5] by simp
qed

text \<open>
  Every numeric score field of a verdict of the model path is an int within its bounds, and
  the totals that the aggregator computes are the sums of these fields.
\<close>

lemma sanitize_scores:
  assumes "sanitize e X t = Inr r"
    and "side \<in> {''affirmative'', ''negative''}"
    and "spk \<in> {''speaker1'', ''speaker2'', ''speaker3'', ''reply''}"
    and "field \<in> {''matter'', ''manner'', ''method''}"
  shows "\<exists>x. score_of r side spk field = Some (JInt x) \<and> 0 \<le> x \<and> x \<le> cap spk field"
proof -
  from assms(1) obtain y where y: "enforce_ranges (env_float e) X = Inr y"
    "ensure_analysis_defaults y t = Inr r"
    by (auto simp: sanitize_def ebind_Inr_iff)
  from ensure_analysis_defaults_Inr [OF y(2)] obtain kv where kv: "y = JObj kv" by blast
  have "\<exists>xs. X = JObj xs"
    using y(1) kv by (cases X) (simp_all add: enforce_ranges_def)
  then obtain xs where xs: "X = JObj xs" by blast
  from enforce_ranges_Inr_conv [of "env_float e" xs y] y(1) xs have ok: "containers_ok X" by simp
  from enforce_ranges_fixed [OF ok, of "env_float e"] y(1) assms(2-4)
  have s: "score_of y side spk field =
      Some (JInt (spec_clamp (env_float e) (raw_score X side spk field) (cap spk field)))"
    by auto
  have "lookup r ''scores'' = lookup y ''scores''"
    by (rule ensure_analysis_defaults_frame [OF y(2)]) simp
  then have "score_of r side spk field = score_of y side spk field"
    by (simp add: score_of_def)
  moreover have "0 \<le> cap spk field" by (simp add: cap_def)
  ultimately show ?thesis
    using s spec_clamp_bounds [of "cap spk field" "env_float e" "raw_score X side spk field"]
    by simp
qed

lemma judge_scores:
  assumes "judge e t = Inr v"
    and "side \<in> {''affirmative'', ''negative''}"
    and "spk \<in> {''speaker1'', ''speaker2'', ''speaker3'', ''reply''}"
    and "field \<in> {''matter'', ''manner'', ''method''}"
  shows "\<exists>x. score_of v side spk field = Some (JInt x) \<and> 0 \<le> x \<and> x \<le> cap spk field"
proof -
  from judge_Inr [OF assms(1)] obtain m r1 r2 a n r3 r4 w r5 s where
    r1: "sanitize e m t = Inr r1" and
    r2: "validated e r1 t = Inr r2" and
    r3: "set_key r2 ''totals'' (totals_dict a n) = Inr r3" and
    r4: "tie_break r3 a n = Inr r4" and
    r5: "rebalance_notable_moves r4 w = Inr r5" and
    v: "set_key r5 ''final_statement'' (JStr s) = Inr v"
    by blast
  have "lookup v ''scores'' = lookup r5 ''scores''"
    using lookup_set_key [OF v, of "''scores''"] by simp
  also have "\<dots> = lookup r4 ''scores''"
    by (rule rebalance_frame [OF r5]) simp
  also have "\<dots> = lookup r3 ''scores''"
    by (rule tie_break_winner(2) [OF r4]) simp
  also have "\<dots> = lookup r2 ''scores''"
    using lookup_set_key [OF r3, of "''scores''"] by simp
  finally have "score_of v side spk field = score_of r2 side spk field"
    by (simp add: score_of_def)
  moreover from r2 have "r2 = r1 \<or> sanitize e r1 t = Inr r2"
    by (auto simp: validated_def ebind_Inr_iff split: if_splits)
  then have "\<exists>x. score_of r2 side spk field = Some (JInt x) \<and> 0 \<le> x \<and> x \<le> cap spk field"
    using sanitize_scores [OF _ assms(2-4)] r1 by blast
  ultimately show ?thesis by simp
qed

lemma weighted_total_speaker_sum:
  assumes "lookup s ''matter'' = Some (JInt x1)" "lookup s ''manner'' = Some (JInt x2)"
    "lookup s ''method'' = Some (JInt x3)"
  shows "weighted_total_speaker p s = Inr (x1 + x2 + x3)"
proof -
  from lookup_Some [OF assms(1)] obtain kv where "s = JObj kv" by blast
  with assms show ?thesis by (simp add: weighted_total_speaker_def)
qed

lemma side_total_sum:
  assumes "\<forall>spk\<in>{''speaker1'', ''speaker2'', ''speaker3'', ''reply''}.
           \<forall>field\<in>{''matter'', ''manner'', ''method''}.
             \<exists>x. score_of v side spk field = Some (JInt x)"
  shows "\<exists>sc so. lookup v ''scores'' = Some sc \<and> lookup sc side = Some so \<and>
           side_total p so = Inr (raw_total v side)"
proof -
  from assms obtain x0 where "score_of v side ''speaker1'' ''matter'' = Some (JInt x0)" by blast
  then obtain sc so where sc: "lookup v ''scores'' = Some sc" and so: "lookup sc side = Some so"
    by (auto simp: score_of_def bind_eq_Some_conv)
  have sp: "\<exists>s. lookup so spk = Some s \<and>
      weighted_total_speaker p s =
        Inr (field_value v side spk ''matter'' + field_value v side spk ''manner'' +
             field_value v side spk ''method'')"
    if spk: "spk \<in> {''speaker1'', ''speaker2'', ''speaker3'', ''reply''}" for spk
  proof -
    from assms spk obtain x1 x2 x3 where
      x: "score_of v side spk ''matter'' = Some (JInt x1)"
         "score_of v side spk ''manner'' = Some (JInt x2)"
         "score_of v side spk ''method'' = Some (JInt x3)"
      by (metis insertI1 insertI2)
    from x(1) sc so obtain s where s: "lookup so spk = Some s"
      by (auto simp: score_of_def bind_eq_Some_conv)
    with x sc so have "lookup s ''matter'' = Some (JInt x1)" "lookup s ''manner'' = Some (JInt x2)"
      "lookup s ''method'' = Some (JInt x3)"
      by (simp_all add: score_of_def)
    from weighted_total_speaker_sum [OF this, of p] x s show ?thesis
      by (simp add: field_value_def)
  qed
  from sp [of "''speaker1''"] sp [of "''speaker2''"] sp [of "''speaker3''"] sp [of "''reply''"]
  obtain s1 s2 s3 s4 where
    "lookup so ''speaker1'' = Some s1" "lookup so ''speaker2'' = Some s2"
    "lookup so ''speaker3'' = Some s3" "lookup so ''reply'' = Some s4" and
    w: "weighted_total_speaker p s1 =
        Inr (field_value v side ''speaker1'' ''matter'' + field_value v side ''speaker1'' ''manner'' +
             field_value v side ''speaker1'' ''method'')"
      "weighted_total_speaker p s2 =
        Inr (field_value v side ''speaker2'' ''matter'' + field_value v side ''speaker2'' ''manner'' +
             field_value v side ''speaker2'' ''method'')"
      "weighted_total_speaker p s3 =
        Inr (field_value v side ''speaker3'' ''matter'' + field_value v side ''speaker3'' ''manner'' +
             field_value v side ''speaker3'' ''method'')"
      "weighted_total_speaker p s4 =
        Inr (field_value v side ''reply'' ''matter'' + field_value v side ''reply'' ''manner'' +
             field_value v side ''reply'' ''method'')"
    by auto
  then have "subscript so ''speaker1'' = Inr s1" "subscript so ''speaker2'' = Inr s2"
    "subscript so ''speaker3'' = Inr s3" "subscript so ''reply'' = Inr s4"
    by (auto dest: lookup_Some)
  with w have "side_total p so = Inr (raw_total v side)"
    by (simp add: side_total_def weighted_total_reply_def raw_total_def)
  with sc so show ?thesis by blast
qed

lemma compute_totals_sum:
  assumes "\<forall>side\<in>{''affirmative'', ''negative''}.
           \<forall>spk\<in>{''speaker1'', ''speaker2'', ''speaker3'', ''reply''}.
           \<forall>field\<in>{''matter'', ''manner'', ''method''}.
             \<exists>x. score_of v side spk field = Some (JInt x)"
  shows "compute_totals p v = Inr (raw_total v ''affirmative'', raw_total v ''negative'')"
proof -
  from assms side_total_sum [of v "''affirmative''" p] obtain sc soa where
    a: "lookup v ''scores'' = Some sc" "lookup sc ''affirmative'' = Some soa"
      "side_total p soa = Inr (raw_total v ''affirmative'')"
    by blast
  from assms side_total_sum [of v "''negative''" p] a(1) obtain son where
    n: "lookup sc ''negative'' = Some son" "side_total p son = Inr (raw_total v ''negative'')"
    by auto
  from lookup_Some [OF a(1)] lookup_Some [OF a(2)] a n show ?thesis
    by (auto simp: compute_totals_def)
qed

section \<open>Concrete runs\<close>

lemma low_content_verdict_eq: "low_content_verdict = Inr low_verdict"
  by code_simp

lemma ex_low: "is_low_content ex_short"
  by code_simp



lemma ex_not_low: "\<not> is_low_content ex_transcript"
  by code_simp

lemma ex_returns: "returns (main (ex_env ex_answer) ex_transcript)"
  by code_simp

lemma ex_totals: "case snd (main (ex_env ex_answer) ex_transcript) of
    Inr v \<Rightarrow> compute_totals (\<lambda>s. None) v = Inr (300, 250) | Inl e \<Rightarrow> False"
  by code_simp

lemma c6w: "final_statement 300 250 = Inr ''Congratulations, Team AFFIRMATIVE! You win by 14.3 points (overwhelming win). Final (/100): AFF 85.7 - NEG 71.4.''"
  by code_simp

lemma c6w_neg: "final_statement 250 300 = Inr ''Congratulations, Team NEGATIVE! You win by 14.3 points (overwhelming win). Final (/100): AFF 71.4 - NEG 85.7.''"
  by code_simp

lemma c6w_tie: "final_statement 175 175 = Inr ''The round is a TIE. Final (/100): AFF 50.0 - NEG 50.0.''"
  by code_simp

lemma c6w_gap:
  "case scale_to_100 250 of
     Inr (Finite x) \<Rightarrow>
       (case scale_to_100 300 of
          Inr (Finite y) \<Rightarrow>
            (case to_float (x - y) of
               Finite d \<Rightarrow>
                 d < 0 \<and>
                 (case py_round1 (Finite \<bar>d\<bar>) of
                    Inr (Finite g) \<Rightarrow>
                      py_repr (Finite x) = ''71.4'' \<and> py_repr (Finite y) = ''85.7'' \<and>
                      py_repr (Finite g) = ''14.3''
                  | _ \<Rightarrow> False)
             | _ \<Rightarrow> False)
        | _ \<Rightarrow> False)
   | _ \<Rightarrow> False"
  by code_simp

lemma ex_reply_returns: "returns (main (ex_env ex_reply) ex_transcript)"
  by code_simp

lemma ex_reply_totals: "case snd (main (ex_env ex_reply) ex_transcript) of
    Inr v \<Rightarrow> raw_total v ''affirmative'' = 300 \<and> raw_total v ''negative'' = 340 \<and>
      field_value v ''negative'' ''reply'' ''matter'' = 20
  | Inl e \<Rightarrow> False"
  by code_simp


lemma low_verdict_fields:
  "lookup low_verdict ''winner'' = Some (JStr ''TIE'')"
  "lookup low_verdict ''totals'' = Some (totals_dict 0 0)"
  "lookup low_verdict ''final_statement'' = Some (JStr ''The round is a TIE. Final (/100): AFF 0.0 - NEG 0.0.'')"
  "notable_moves_of low_verdict ''affirmative'' = Some (JArr [])"
  "notable_moves_of low_verdict ''negative'' = Some (JArr [])"
  by (simp_all add: low_verdict_def empty_result_items_def notable_moves_of_def)

section \<open>Proofs: rounding stays in range\<close>

lemma pow2_powi: "pow2 k = 2 powi k"
  by (simp add: pow2_def power_int_def inverse_eq_divide power_one_over)

lemma pow2_pos: "0 < pow2 k"
  by (simp add: pow2_powi)

lemma pow2_mono: "i \<le> j \<Longrightarrow> pow2 i \<le> pow2 j"
  by (simp add: pow2_powi power_int_increasing)

lemma round_half_even_near: "\<bar>of_int (round_half_even z) - z\<bar> \<le> 1 / 2"
proof -
  have "of_int \<lfloor>z\<rfloor> \<le> z" "z < of_int \<lfloor>z\<rfloor> + 1" by linarith+
  then show ?thesis
    by (auto simp: round_half_even_def Let_def abs_le_iff)
qed

lemma ilog2_lower:
  assumes "0 < y"
  shows "pow2 (ilog2 y) \<le> y"
proof -
  obtain p q where pq: "quotient_of y = (p, q)" by (cases "quotient_of y")
  then have q: "0 < q" by (rule quotient_of_denom_pos)
  from pq have y: "y = of_int p / of_int q" by (rule quotient_of_div)
  with assms q have p: "0 < p" by (simp add: zero_less_divide_iff)
  let ?k = "bitlen p - bitlen q"
  show ?thesis
  proof (cases "pow2 ?k \<le> y")
    case True
    with pq show ?thesis by (simp add: ilog2_def)
  next
    case False
    from bitlen_bounds [OF p] have "(2::int) ^ nat (bitlen p - 1) \<le> p" by simp
    then have lp: "(2::rat) ^ nat (bitlen p - 1) \<le> of_int p"
      by (metis of_int_le_iff of_int_numeral of_int_power)
    from bitlen_bounds [OF q] have "q < (2::int) ^ nat (bitlen q)" by simp
    then have lq: "of_int q < (2::rat) ^ nat (bitlen q)"
      by (metis of_int_less_iff of_int_numeral of_int_power)
    from p q have bp: "1 \<le> bitlen p" and bq: "1 \<le> bitlen q"
      by (auto simp: bitlen_alt_def)
    have "pow2 (?k - 1) = 2 powi (bitlen p - 1) / 2 powi (bitlen q)"
      by (simp add: pow2_powi power_int_diff)
    also have "\<dots> = 2 ^ nat (bitlen p - 1) / 2 ^ nat (bitlen q)"
      using bp bq by (simp add: power_int_def)
    also have "\<dots> \<le> of_int p / 2 ^ nat (bitlen q)"
      using lp by (simp add: divide_right_mono)
    also have "\<dots> \<le> of_int p / of_int q"
      using lq p q by (simp add: frac_le)
    finally have "pow2 (?k - 1) \<le> y" by (simp add: y)
    with False pq show ?thesis by (simp add: ilog2_def)
  qed
qed

lemma not_overflows:
  assumes "\<bar>r\<bar> < 2 ^ 1024"
  shows "\<not> overflows r"
proof
  assume o: "overflows r"
  then have r: "0 < \<bar>r\<bar>" and l: "1024 \<le> ilog2 \<bar>r\<bar>" by (simp_all add: overflows_def)
  from pow2_mono [OF l] ilog2_lower [OF r] have "pow2 1024 \<le> \<bar>r\<bar>" by simp
  with assms show False by (simp add: pow2_def)
qed

lemma rnd64_bound: "\<bar>rnd64 x\<bar> \<le> 2 * \<bar>x\<bar> + 1"
proof (cases "x = 0")
  case True
  then show ?thesis by (simp add: rnd64_def)
next
  case False
  define e where "e = max (ilog2 \<bar>x\<bar> - 52) (- 1074)"
  define z where "z = x / pow2 e"
  have r: "rnd64 x = of_int (round_half_even z) * pow2 e"
    using False by (simp add: rnd64_def e_def z_def Let_def)
  have x: "x = z * pow2 e" using pow2_pos [of e] by (simp add: z_def)
  have "rnd64 x - x = (of_int (round_half_even z) - z) * pow2 e"
    using pow2_pos [of e] by (simp add: r z_def left_diff_distrib)
  then have "\<bar>rnd64 x - x\<bar> = \<bar>of_int (round_half_even z) - z\<bar> * pow2 e"
    using pow2_pos [of e] by (simp add: abs_mult)
  also have "\<dots> \<le> 1 / 2 * pow2 e"
    using round_half_even_near [of z] pow2_pos [of e] by (simp add: mult_right_mono)
  finally have d: "\<bar>rnd64 x - x\<bar> \<le> pow2 e / 2" by simp
  have "pow2 e \<le> \<bar>x\<bar> + 1"
  proof (cases "ilog2 \<bar>x\<bar> - 52 \<le> - 1074")
    case True
    then have "e = - 1074" by (simp add: e_def)
    then have "pow2 e \<le> 1" using pow2_mono [of "- 1074" 0] by (simp add: pow2_def)
    then show ?thesis by linarith
  next
    case False
    then have "e = ilog2 \<bar>x\<bar> - 52" by (simp add: e_def)
    then have "pow2 e \<le> pow2 (ilog2 \<bar>x\<bar>)" by (simp add: pow2_mono)
    also have "\<dots> \<le> \<bar>x\<bar>" using \<open>x \<noteq> 0\<close> by (simp add: ilog2_lower)
    finally show ?thesis by linarith
  qed
  with d show ?thesis by linarith
qed

lemma not_overflows_small: "\<bar>r\<bar> \<le> 1000000 \<Longrightarrow> \<not> overflows r"
proof (rule not_overflows)
  assume "\<bar>r\<bar> \<le> 1000000"
  also have "(1000000::rat) < 2 ^ 20" by simp
  also have "(2::rat) ^ 20 \<le> 2 ^ 1024" by (rule power_increasing) simp_all
  finally show "\<bar>r\<bar> < 2 ^ 1024" .
qed

lemma to_float_small: "\<bar>x\<bar> \<le> 100000 \<Longrightarrow> to_float x = Finite (rnd64 x) \<and> \<bar>rnd64 x\<bar> \<le> 2 * \<bar>x\<bar> + 1"
  using rnd64_bound [of x] not_overflows_small [of "rnd64 x"]
  by (simp add: to_float_def Let_def)

lemma py_round1_small:
  assumes "\<bar>x\<bar> \<le> 100000"
  shows "\<exists>r. py_round1 (Finite x) = Inr (Finite r) \<and> \<bar>r\<bar> \<le> 2 * \<bar>x\<bar> + 2"
proof -
  let ?d = "of_int (round_half_even (x * 10)) / 10 :: rat"
  from round_half_even_near [of "x * 10"] have "\<bar>?d - x\<bar> \<le> 1 / 20"
    by (simp add: abs_le_iff field_simps)
  then have d: "\<bar>?d\<bar> \<le> \<bar>x\<bar> + 1 / 20" by linarith
  with rnd64_bound [of ?d] have b: "\<bar>rnd64 ?d\<bar> \<le> 2 * \<bar>x\<bar> + 2" by linarith
  with assms have "\<not> overflows (rnd64 ?d)" by (intro not_overflows_small) linarith
  with b show ?thesis by (simp add: Let_def)
qed

lemma scale_to_100_small:
  assumes "\<bar>a\<bar> \<le> 350"
  shows "\<exists>x. scale_to_100 a = Inr (Finite x) \<and> \<bar>x\<bar> \<le> 1000"
proof -
  from assms have a: "\<bar>of_int a :: rat\<bar> \<le> 350"
    by (metis of_int_abs of_int_le_iff of_int_numeral)
  with rnd64_bound [of "of_int a"] have ra: "\<bar>rnd64 (of_int a)\<bar> \<le> 701" by linarith
  then have "\<not> overflows (rnd64 (of_int a))" by (intro not_overflows_small) linarith
  then have i: "int_to_float a = Inr (Finite (rnd64 (of_int a)))"
    by (simp add: int_to_float_def Let_def)
  let ?q = "rnd64 (of_int a) / (7 / 2)"
  from ra have q: "\<bar>?q\<bar> \<le> 201" by (simp add: abs_le_iff field_simps)
  with to_float_small [of ?q] have t: "to_float ?q = Finite (rnd64 ?q)" "\<bar>rnd64 ?q\<bar> \<le> 403"
    by auto
  from py_round1_small [of "rnd64 ?q"] t(2) obtain r where
    "py_round1 (Finite (rnd64 ?q)) = Inr (Finite r)" "\<bar>r\<bar> \<le> 808" by auto
  with i t(1) show ?thesis by (simp add: scale_to_100_def)
qed

lemma final_statement_total:
  assumes "\<bar>a\<bar> \<le> 350" "\<bar>b\<bar> \<le> 350"
  shows "\<exists>s. final_statement a b = Inr s"
proof -
  from scale_to_100_small [OF assms(1)] obtain x where x: "scale_to_100 a = Inr (Finite x)" "\<bar>x\<bar> \<le> 1000"
    by blast
  from scale_to_100_small [OF assms(2)] obtain y where y: "scale_to_100 b = Inr (Finite y)" "\<bar>y\<bar> \<le> 1000"
    by blast
  from x(2) y(2) have "\<bar>x - y\<bar> \<le> 2000" by linarith
  with to_float_small [of "x - y"] have d: "to_float (x - y) = Finite (rnd64 (x - y))"
    "\<bar>rnd64 (x - y)\<bar> \<le> 4001" by auto
  from d(2) have "\<bar>\<bar>rnd64 (x - y)\<bar>\<bar> \<le> 100000" by simp
  from py_round1_small [OF this] obtain g where
    "py_round1 (Finite \<bar>rnd64 (x - y)\<bar>) = Inr (Finite g)" by blast
  with d(1) have g: "py_round1 (fabs (fsub (Finite x) (Finite y))) = Inr (Finite g)"
    by (simp del: py_round1.simps)
  show ?thesis
    by (simp only: final_statement_def x(1) y(1) g ebind_Inr Let_def) (simp del: py_repr.simps)
qed

text \<open>
  A value that does not overflow is below \<open>2^1024\<close>; rounding moves a value by a
  relative error far below one per mille (plus a half, for the subnormal range); so the
  floats of the outcome sentence are finite whenever the sentence is produced.
\<close>

lemma ilog2_upper:
  assumes "0 < y"
  shows "y < pow2 (ilog2 y + 1)"
proof -
  obtain p q where pq: "quotient_of y = (p, q)" by (cases "quotient_of y")
  then have q: "0 < q" by (rule quotient_of_denom_pos)
  from pq have y: "y = of_int p / of_int q" by (rule quotient_of_div)
  with assms q have p: "0 < p" by (simp add: zero_less_divide_iff)
  let ?k = "bitlen p - bitlen q"
  show ?thesis
  proof (cases "pow2 ?k \<le> y")
    case False
    with pq show ?thesis by (simp add: ilog2_def)
  next
    case True
    from bitlen_bounds [OF p] have "p < (2::int) ^ nat (bitlen p)" by simp
    then have lp: "of_int p < (2::rat) ^ nat (bitlen p)"
      by (metis of_int_less_iff of_int_numeral of_int_power)
    from bitlen_bounds [OF q] have "(2::int) ^ nat (bitlen q - 1) \<le> q" by simp
    then have lq: "(2::rat) ^ nat (bitlen q - 1) \<le> of_int q"
      by (metis of_int_le_iff of_int_numeral of_int_power)
    from p q have bp: "1 \<le> bitlen p" and bq: "1 \<le> bitlen q"
      by (auto simp: bitlen_alt_def)
    have "y = of_int p / of_int q" by (rule y)
    also have "\<dots> < 2 ^ nat (bitlen p) / of_int q"
      using lp q by (simp add: divide_strict_right_mono)
    also have "\<dots> \<le> 2 ^ nat (bitlen p) / 2 ^ nat (bitlen q - 1)"
      using lq by (simp add: frac_le)
    also have "\<dots> = 2 powi (bitlen p) / 2 powi (bitlen q - 1)"
      using bp bq by (simp add: power_int_def)
    also have "\<dots> = pow2 (?k + 1)"
      by (simp add: pow2_powi power_int_diff power_int_add)
    finally have "y < pow2 (?k + 1)" .
    with True pq show ?thesis by (simp add: ilog2_def)
  qed
qed

lemma not_overflows_bound:
  assumes "\<not> overflows r"
  shows "\<bar>r\<bar> < pow2 1024"
proof (cases "r = 0")
  case True
  then show ?thesis by (simp add: pow2_pos)
next
  case False
  with assms have "ilog2 \<bar>r\<bar> + 1 \<le> 1024" by (simp add: overflows_def)
  from pow2_mono [OF this] ilog2_upper [of "\<bar>r\<bar>"] False show ?thesis by simp
qed

lemma bound_not_overflows: "\<bar>r\<bar> < pow2 1024 \<Longrightarrow> \<not> overflows r"
  by (rule not_overflows) (simp add: pow2_def)

lemma pow2_1024_big: "1024 \<le> pow2 1024"
  using pow2_mono [of 10 1024] by (simp add: pow2_def)

lemma rnd64_err: "\<bar>rnd64 x - x\<bar> \<le> \<bar>x\<bar> / 1000 + 1 / 2"
proof (cases "x = 0")
  case True
  then show ?thesis by (simp add: rnd64_def)
next
  case False
  define e where "e = max (ilog2 \<bar>x\<bar> - 52) (- 1074)"
  define z where "z = x / pow2 e"
  have r: "rnd64 x = of_int (round_half_even z) * pow2 e"
    using False by (simp add: rnd64_def e_def z_def Let_def)
  have "rnd64 x - x = (of_int (round_half_even z) - z) * pow2 e"
    using pow2_pos [of e] by (simp add: r z_def left_diff_distrib)
  then have "\<bar>rnd64 x - x\<bar> = \<bar>of_int (round_half_even z) - z\<bar> * pow2 e"
    using pow2_pos [of e] by (simp add: abs_mult)
  also have "\<dots> \<le> 1 / 2 * pow2 e"
    using round_half_even_near [of z] pow2_pos [of e] by (simp add: mult_right_mono)
  finally have d: "\<bar>rnd64 x - x\<bar> \<le> pow2 e / 2" by simp
  have "pow2 e \<le> \<bar>x\<bar> / 500 + 1"
  proof (cases "ilog2 \<bar>x\<bar> - 52 \<le> - 1074")
    case True
    then have "e = - 1074" by (simp add: e_def)
    then have "pow2 e \<le> 1" using pow2_mono [of "- 1074" 0] by (simp add: pow2_def)
    moreover have "0 \<le> \<bar>x\<bar> / 500" by simp
    ultimately show ?thesis by linarith
  next
    case False
    then have "e = ilog2 \<bar>x\<bar> - 52" by (simp add: e_def)
    then have "pow2 e = pow2 (ilog2 \<bar>x\<bar>) / 2 ^ 52"
      by (simp add: pow2_powi power_int_diff)
    also have "\<dots> \<le> \<bar>x\<bar> / 2 ^ 52"
      using \<open>x \<noteq> 0\<close> by (simp add: ilog2_lower divide_right_mono)
    also have "\<dots> \<le> \<bar>x\<bar> / 500"
      by (rule divide_left_mono) simp_all
    finally show ?thesis by linarith
  qed
  with d show ?thesis by linarith
qed

lemma round_half_even_nonneg: "0 \<le> z \<Longrightarrow> 0 \<le> round_half_even z"
  by (simp add: round_half_even_def Let_def) 

lemma rnd64_nonneg:
  assumes "0 \<le> x"
  shows "0 \<le> rnd64 x"
proof (cases "x = 0")
  case True
  then show ?thesis by (simp add: rnd64_def)
next
  case False
  define e where "e = max (ilog2 \<bar>x\<bar> - 52) (- 1074)"
  have r: "rnd64 x = of_int (round_half_even (x / pow2 e)) * pow2 e"
    using False by (simp add: rnd64_def e_def Let_def)
  from assms pow2_pos [of e] have "0 \<le> x / pow2 e" by simp
  then have "0 \<le> round_half_even (x / pow2 e)" by (rule round_half_even_nonneg)
  then have "(0::rat) \<le> of_int (round_half_even (x / pow2 e))" by simp
  with pow2_pos [of e] show ?thesis unfolding r by (intro mult_nonneg_nonneg) simp_all
qed

lemma py_round1_Inr:
  assumes "py_round1 (Finite q) = Inr f"
  shows "\<exists>x. f = Finite x \<and> \<bar>x - q\<bar> \<le> \<bar>q\<bar> / 500 + 1 \<and> (0 \<le> q \<longrightarrow> 0 \<le> x)"
proof -
  let ?d = "of_int (round_half_even (q * 10)) / 10 :: rat"
  from assms have f: "f = Finite (rnd64 ?d)"
    by (simp add: Let_def split: if_splits)
  from round_half_even_near [of "q * 10"] have dq: "\<bar>?d - q\<bar> \<le> 1 / 20"
    by (simp add: abs_le_iff field_simps)
  from rnd64_err [of ?d] dq have "\<bar>rnd64 ?d - q\<bar> \<le> \<bar>q\<bar> / 500 + 1" by linarith
  moreover have "0 \<le> rnd64 ?d" if "0 \<le> q"
    using that by (intro rnd64_nonneg) (simp add: round_half_even_nonneg)
  ultimately show ?thesis using f by blast
qed

lemma scale_to_100_Inr:
  assumes "scale_to_100 a = Inr sa"
  shows "\<exists>x. sa = Finite x \<and> \<bar>x\<bar> \<le> 3 / 10 * pow2 1024 + 2"
proof -
  define M where "M = pow2 1024"
  note big = pow2_1024_big [folded M_def]
  from assms obtain f where f: "int_to_float a = Inr f" and
    sa: "py_round1 (fdiv_pos f (7 / 2)) = Inr sa"
    by (auto simp: scale_to_100_def ebind_Inr_iff)
  define r where "r = rnd64 (of_int a)"
  from f have fr: "f = Finite r" and "\<not> overflows r"
    by (auto simp: int_to_float_def Let_def r_def split: if_splits)
  from not_overflows_bound [OF this(2)] have r: "\<bar>r\<bar> < M" by (simp add: M_def)
  define q0 where "q0 = r / (7 / 2)"
  define q where "q = rnd64 q0"
  have q0: "\<bar>q0\<bar> = \<bar>r\<bar> * 2 / 7" by (simp add: q0_def)
  have "\<bar>q - q0\<bar> \<le> \<bar>q0\<bar> / 1000 + 1 / 2" unfolding q_def by (rule rnd64_err)
  with q0 have q: "\<bar>q\<bar> \<le> \<bar>r\<bar> * 29 / 100 + 1 / 2" by linarith
  with r big have "\<bar>q\<bar> < M" by linarith
  then have "\<not> overflows q" by (intro bound_not_overflows) (simp add: M_def)
  then have "fdiv_pos f (7 / 2) = Finite q"
    by (simp add: fr to_float_def q_def q0_def Let_def)
  with sa have "py_round1 (Finite q) = Inr sa" by simp
  from py_round1_Inr [OF this] obtain x where x: "sa = Finite x" "\<bar>x - q\<bar> \<le> \<bar>q\<bar> / 500 + 1"
    by blast
  from x(2) q r have "\<bar>x\<bar> \<le> 3 / 10 * M + 2" by linarith
  with x(1) show ?thesis by (simp add: M_def)
qed

lemma final_statement_Inr:
  assumes "final_statement a b = Inr s"
  shows "\<exists>x y d g. scale_to_100 a = Inr (Finite x) \<and> scale_to_100 b = Inr (Finite y) \<and>
     to_float (x - y) = Finite d \<and> py_round1 (Finite \<bar>d\<bar>) = Inr (Finite g) \<and> 0 \<le> g \<and>
     s = (if a = b
          then ''The round is a TIE. Final (/100): AFF '' @ py_repr (Finite x) @ '' - NEG '' @
               py_repr (Finite y) @ ''.''
          else ''Congratulations, Team '' @ (if b < a then ''AFFIRMATIVE'' else ''NEGATIVE'') @
               ''! You win by '' @ py_repr (Finite g) @ '' points ('' @ margin_label (a - b) @
               ''). Final (/100): AFF '' @ py_repr (Finite x) @ '' - NEG '' @ py_repr (Finite y) @ ''.'')"
proof -
  define M where "M = pow2 1024"
  note big = pow2_1024_big [folded M_def]
  from assms obtain sa sb gap where
    sa: "scale_to_100 a = Inr sa" and sb: "scale_to_100 b = Inr sb" and
    gap: "py_round1 (fabs (fsub sa sb)) = Inr gap"
    by (auto simp: final_statement_def ebind_Inr_iff Let_def)
  from scale_to_100_Inr [OF sa] obtain x where x: "sa = Finite x" "\<bar>x\<bar> \<le> 3 / 10 * M + 2"
    by (auto simp: M_def)
  from scale_to_100_Inr [OF sb] obtain y where y: "sb = Finite y" "\<bar>y\<bar> \<le> 3 / 10 * M + 2"
    by (auto simp: M_def)
  define z where "z = x - y"
  define d where "d = rnd64 z"
  have "\<bar>d - z\<bar> \<le> \<bar>z\<bar> / 1000 + 1 / 2" unfolding d_def by (rule rnd64_err)
  moreover from x(2) y(2) have "\<bar>z\<bar> \<le> 6 / 10 * M + 4" unfolding z_def by linarith
  ultimately have "\<bar>d\<bar> < M" using big by linarith
  then have "\<not> overflows d" by (intro bound_not_overflows) (simp add: M_def)
  then have d: "to_float (x - y) = Finite d" by (simp add: to_float_def d_def z_def Let_def)
  with gap x(1) y(1) have g0: "py_round1 (Finite \<bar>d\<bar>) = Inr gap" by simp
  from py_round1_Inr [OF this] obtain g where g: "gap = Finite g" "0 \<le> g" by auto
  have "s = (if a = b
          then ''The round is a TIE. Final (/100): AFF '' @ py_repr (Finite x) @ '' - NEG '' @
               py_repr (Finite y) @ ''.''
          else ''Congratulations, Team '' @ (if b < a then ''AFFIRMATIVE'' else ''NEGATIVE'') @
               ''! You win by '' @ py_repr (Finite g) @ '' points ('' @ margin_label (a - b) @
               ''). Final (/100): AFF '' @ py_repr (Finite x) @ '' - NEG '' @ py_repr (Finite y) @ ''.'')"
    using assms sa sb gap x(1) y(1) g(1)
    by (auto simp: final_statement_def Let_def simp del: py_repr.simps py_round1.simps fsub.simps fabs.simps)
  with sa sb x(1) y(1) d g0 g show ?thesis by blast
qed

section \<open>The transcript gate\<close>


























section \<open>The aggregator and the verdict composer\<close>

lemma margin_label_cases:
  "(\<bar>d\<bar> \<le> 2 \<longrightarrow> margin_label d = ''very close'') \<and>
   (2 < \<bar>d\<bar> \<and> \<bar>d\<bar> \<le> 5 \<longrightarrow> margin_label d = ''close but clear'') \<and>
   (5 < \<bar>d\<bar> \<and> \<bar>d\<bar> \<le> 10 \<longrightarrow> margin_label d = ''clear win'') \<and>
   (10 < \<bar>d\<bar> \<and> \<bar>d\<bar> \<le> 20 \<longrightarrow> margin_label d = ''dominant win'') \<and>
   (20 < \<bar>d\<bar> \<longrightarrow> margin_label d = ''overwhelming win'')"
  by (simp add: margin_label_def Let_def)

text \<open>
  Claim C6. The outcome sentence of two raw totals \<open>a\<close> and \<open>b\<close>. It is produced for
  all totals a side can reach (up to 350). Whenever it is produced, the two scaled scores
  \<open>x\<close> and \<open>y\<close> and their float difference \<open>d\<close> are finite, and the gap \<open>g\<close> is
  \<^verbatim>\<open>round(|d|, 1)\<close>, never negative. For equal totals the sentence is the TIE sentence with
  the two scaled scores; otherwise it names the side with the higher raw total, the gap and
  the margin label of \<open>|a - b|\<close>: up to 2 very close, up to 5 close but clear, up to 10 clear
  win, up to 20 dominant win, above that overwhelming win. Floats are binary64 values and
  are printed by \<^verbatim>\<open>repr\<close>.
\<close>

theorem C6_final_statement:
  "(\<bar>a\<bar> \<le> 350 \<and> \<bar>b\<bar> \<le> 350 \<longrightarrow> (\<exists>s. final_statement a b = Inr s)) \<and>
   (\<forall>s. final_statement a b = Inr s \<longrightarrow>
      (\<exists>x y d g label.
         scale_to_100 a = Inr (Finite x) \<and> scale_to_100 b = Inr (Finite y) \<and>
         to_float (x - y) = Finite d \<and> py_round1 (Finite \<bar>d\<bar>) = Inr (Finite g) \<and> 0 \<le> g \<and>
         (a = b \<longrightarrow> s = ''The round is a TIE. Final (/100): AFF '' @ py_repr (Finite x) @ '' - NEG '' @
                          py_repr (Finite y) @ ''.'') \<and>
         (a \<noteq> b \<longrightarrow> s = ''Congratulations, Team '' @ (if b < a then ''AFFIRMATIVE'' else ''NEGATIVE'') @
                          ''! You win by '' @ py_repr (Finite g) @ '' points ('' @ label @
                          ''). Final (/100): AFF '' @ py_repr (Finite x) @ '' - NEG '' @
                          py_repr (Finite y) @ ''.'') \<and>
         (\<bar>a - b\<bar> \<le> 2 \<longrightarrow> label = ''very close'') \<and>
         (2 < \<bar>a - b\<bar> \<and> \<bar>a - b\<bar> \<le> 5 \<longrightarrow> label = ''close but clear'') \<and>
         (5 < \<bar>a - b\<bar> \<and> \<bar>a - b\<bar> \<le> 10 \<longrightarrow> label = ''clear win'') \<and>
         (10 < \<bar>a - b\<bar> \<and> \<bar>a - b\<bar> \<le> 20 \<longrightarrow> label = ''dominant win'') \<and>
         (20 < \<bar>a - b\<bar> \<longrightarrow> label = ''overwhelming win'')))"
proof (intro conjI allI impI)
  assume "\<bar>a\<bar> \<le> 350 \<and> \<bar>b\<bar> \<le> 350"
  then show "\<exists>s. final_statement a b = Inr s"
    using final_statement_total by blast
next
  fix s assume fs: "final_statement a b = Inr s"
  from final_statement_Inr [OF fs] obtain x y d g where
    x: "scale_to_100 a = Inr (Finite x)" and y: "scale_to_100 b = Inr (Finite y)" and
    d: "to_float (x - y) = Finite d" and g: "py_round1 (Finite \<bar>d\<bar>) = Inr (Finite g)" and
    g0: "0 \<le> g" and
    s: "s = (if a = b
          then ''The round is a TIE. Final (/100): AFF '' @ py_repr (Finite x) @ '' - NEG '' @
               py_repr (Finite y) @ ''.''
          else ''Congratulations, Team '' @ (if b < a then ''AFFIRMATIVE'' else ''NEGATIVE'') @
               ''! You win by '' @ py_repr (Finite g) @ '' points ('' @ margin_label (a - b) @
               ''). Final (/100): AFF '' @ py_repr (Finite x) @ '' - NEG '' @ py_repr (Finite y) @ ''.'')"
    by blast
  have tie: "a = b \<longrightarrow> s = ''The round is a TIE. Final (/100): AFF '' @ py_repr (Finite x) @ '' - NEG '' @
                      py_repr (Finite y) @ ''.''"
    using s by (simp del: py_repr.simps)
  have win: "a \<noteq> b \<longrightarrow> s = ''Congratulations, Team '' @ (if b < a then ''AFFIRMATIVE'' else ''NEGATIVE'') @
                      ''! You win by '' @ py_repr (Finite g) @ '' points ('' @ margin_label (a - b) @
                      ''). Final (/100): AFF '' @ py_repr (Finite x) @ '' - NEG '' @ py_repr (Finite y) @ ''.''"
    using s by (simp del: py_repr.simps)
  note ml = margin_label_cases [of "a - b"]
  show "\<exists>x y d g label.
         scale_to_100 a = Inr (Finite x) \<and> scale_to_100 b = Inr (Finite y) \<and>
         to_float (x - y) = Finite d \<and> py_round1 (Finite \<bar>d\<bar>) = Inr (Finite g) \<and> 0 \<le> g \<and>
         (a = b \<longrightarrow> s = ''The round is a TIE. Final (/100): AFF '' @ py_repr (Finite x) @ '' - NEG '' @
                          py_repr (Finite y) @ ''.'') \<and>
         (a \<noteq> b \<longrightarrow> s = ''Congratulations, Team '' @ (if b < a then ''AFFIRMATIVE'' else ''NEGATIVE'') @
                          ''! You win by '' @ py_repr (Finite g) @ '' points ('' @ label @
                          ''). Final (/100): AFF '' @ py_repr (Finite x) @ '' - NEG '' @
                          py_repr (Finite y) @ ''.'') \<and>
         (\<bar>a - b\<bar> \<le> 2 \<longrightarrow> label = ''very close'') \<and>
         (2 < \<bar>a - b\<bar> \<and> \<bar>a - b\<bar> \<le> 5 \<longrightarrow> label = ''close but clear'') \<and>
         (5 < \<bar>a - b\<bar> \<and> \<bar>a - b\<bar> \<le> 10 \<longrightarrow> label = ''clear win'') \<and>
         (10 < \<bar>a - b\<bar> \<and> \<bar>a - b\<bar> \<le> 20 \<longrightarrow> label = ''dominant win'') \<and>
         (20 < \<bar>a - b\<bar> \<longrightarrow> label = ''overwhelming win'')"
    by (intro exI [of _ x] exI [of _ y] exI [of _ d] exI [of _ g] exI [of _ "margin_label (a - b)"] conjI)
       (rule x y d g g0 tie win ml [THEN conjunct1] ml [THEN conjunct2, THEN conjunct1]
          ml [THEN conjunct2, THEN conjunct2, THEN conjunct1]
          ml [THEN conjunct2, THEN conjunct2, THEN conjunct2, THEN conjunct1]
          ml [THEN conjunct2, THEN conjunct2, THEN conjunct2, THEN conjunct2])+
qed

text \<open>
  Raw totals 300 and 250: an overwhelming win of the affirmative by 14.3 points, 85.7 to
  71.4. Raw totals 250 and 300: the float difference is negative, and the negative wins by
  14.3 points. Raw totals 175 and 175: a tie at 50.0.
\<close>

theorem C6_final_statement_witness:
  "final_statement 300 250 = Inr ''Congratulations, Team AFFIRMATIVE! You win by 14.3 points (overwhelming win). Final (/100): AFF 85.7 - NEG 71.4.'' \<and>
   final_statement 175 175 = Inr ''The round is a TIE. Final (/100): AFF 50.0 - NEG 50.0.'' \<and>
   final_statement 250 300 = Inr ''Congratulations, Team NEGATIVE! You win by 14.3 points (overwhelming win). Final (/100): AFF 71.4 - NEG 85.7.'' \<and>
   (\<exists>x y d g. scale_to_100 250 = Inr (Finite x) \<and> scale_to_100 300 = Inr (Finite y) \<and>
      to_float (x - y) = Finite d \<and> d < 0 \<and> py_round1 (Finite \<bar>d\<bar>) = Inr (Finite g) \<and> 0 \<le> g \<and>
      py_repr (Finite x) = ''71.4'' \<and> py_repr (Finite y) = ''85.7'' \<and> py_repr (Finite g) = ''14.3'')"
proof -
  from C6_final_statement [of 250 300] c6w_neg obtain x y d g where
    h: "scale_to_100 250 = Inr (Finite x)" "scale_to_100 300 = Inr (Finite y)"
      "to_float (x - y) = Finite d" "py_round1 (Finite \<bar>d\<bar>) = Inr (Finite g)" "0 \<le> g"
    by auto
  from c6w_gap h have "d < 0 \<and> py_repr (Finite x) = ''71.4'' \<and> py_repr (Finite y) = ''85.7'' \<and>
      py_repr (Finite g) = ''14.3''"
    by (simp del: py_repr.simps py_round1.simps)
  with h c6w c6w_neg c6w_tie show ?thesis by blast
qed

lemma ex_run: "\<exists>v. main (ex_env ex_answer) ex_transcript = (1, Inr v) \<and>
    compute_totals (\<lambda>s. None) v = Inr (300, 250)"
proof -
  obtain k x where kx: "main (ex_env ex_answer) ex_transcript = (k, x)" by (cases "main (ex_env ex_answer) ex_transcript")
  with ex_not_low have k: "k = 1" by (simp add: main_def)
  from ex_returns kx obtain v where "x = Inr v" by (cases x) (simp_all add: returns_def)
  with ex_totals kx k show ?thesis by simp
qed

lemma ex_reply_run: "\<exists>v. main (ex_env ex_reply) ex_transcript = (1, Inr v) \<and>
    raw_total v ''affirmative'' = 300 \<and> raw_total v ''negative'' = 340 \<and>
    field_value v ''negative'' ''reply'' ''matter'' = 20"
proof -
  obtain k x where kx: "main (ex_env ex_reply) ex_transcript = (k, x)"
    by (cases "main (ex_env ex_reply) ex_transcript")
  with ex_not_low have k: "k = 1" by (simp add: main_def)
  from ex_reply_returns kx obtain v where "x = Inr v" by (cases x) (simp_all add: returns_def)
  with ex_reply_totals kx k show ?thesis by simp
qed

text \<open>
  Claim C4. On a run through the model that returns a verdict, every numeric score field
  of the verdict is an int within its bounds; let \<open>a\<close> and \<open>n\<close> be the raw totals of the two
  sides, the sums of their twelve fields. They are the totals that the aggregator computes
  and that the verdict reports. When the model declared TIE, the winner is AFFIRMATIVE if
  \<open>|a - n| \<ge> 1\<close> and \<open>a > n\<close>, NEGATIVE if \<open>|a - n| \<ge> 1\<close> and \<open>a < n\<close>, and it is TIE
  exactly when \<open>a = n\<close>; a declared AFFIRMATIVE or NEGATIVE is the verdict's winner
  unchanged.
\<close>

theorem C4_tie_break:
  assumes "main e t = (k, Inr v)" and "\<not> is_low_content t"
  shows "\<exists>m a n. env_chat e t = Inr m \<and>
     (\<forall>side\<in>{''affirmative'', ''negative''}.
      \<forall>spk\<in>{''speaker1'', ''speaker2'', ''speaker3'', ''reply''}.
      \<forall>field\<in>{''matter'', ''manner'', ''method''}.
        \<exists>x. score_of v side spk field = Some (JInt x) \<and> 0 \<le> x \<and> x \<le> cap spk field) \<and>
     a = raw_total v ''affirmative'' \<and> n = raw_total v ''negative'' \<and>
     compute_totals (env_int e) v = Inr (a, n) \<and>
     lookup v ''totals'' = Some (totals_dict a n) \<and>
     (lookup m ''winner'' = Some (JStr ''TIE'') \<longrightarrow>
        (1 \<le> \<bar>a - n\<bar> \<and> n < a \<longrightarrow> lookup v ''winner'' = Some (JStr ''AFFIRMATIVE'')) \<and>
        (1 \<le> \<bar>a - n\<bar> \<and> a < n \<longrightarrow> lookup v ''winner'' = Some (JStr ''NEGATIVE'')) \<and>
        (lookup v ''winner'' = Some (JStr ''TIE'') \<longleftrightarrow> a = n)) \<and>
     (lookup m ''winner'' = Some (JStr ''AFFIRMATIVE'') \<or>
      lookup m ''winner'' = Some (JStr ''NEGATIVE'') \<longrightarrow> lookup v ''winner'' = lookup m ''winner'')"
proof -
  from main_not_low [OF assms(2,1)] have j: "judge e t = Inr v" by simp
  have sc: "\<forall>side\<in>{''affirmative'', ''negative''}.
      \<forall>spk\<in>{''speaker1'', ''speaker2'', ''speaker3'', ''reply''}.
      \<forall>field\<in>{''matter'', ''manner'', ''method''}.
        \<exists>x. score_of v side spk field = Some (JInt x) \<and> 0 \<le> x \<and> x \<le> cap spk field"
    using judge_scores [OF j] by blast
  then have "\<forall>side\<in>{''affirmative'', ''negative''}.
      \<forall>spk\<in>{''speaker1'', ''speaker2'', ''speaker3'', ''reply''}.
      \<forall>field\<in>{''matter'', ''manner'', ''method''}.
        \<exists>x. score_of v side spk field = Some (JInt x)"
    by blast
  from compute_totals_sum [OF this, of "env_int e"]
  have ct: "compute_totals (env_int e) v = Inr (raw_total v ''affirmative'', raw_total v ''negative'')" .
  from judge_verdict [OF j] ct obtain m where
    m: "env_chat e t = Inr m" and
    tot: "lookup v ''totals'' = Some (totals_dict (raw_total v ''affirmative'') (raw_total v ''negative''))" and
    w: "lookup v ''winner'' =
       (if lookup m ''winner'' = Some (JStr ''TIE'')
        then Some (JStr (if raw_total v ''negative'' < raw_total v ''affirmative'' then ''AFFIRMATIVE''
                         else if raw_total v ''affirmative'' < raw_total v ''negative'' then ''NEGATIVE''
                         else ''TIE''))
        else lookup m ''winner'')"
    by auto
  define a where "a = raw_total v ''affirmative''"
  define n where "n = raw_total v ''negative''"
  have "lookup m ''winner'' = Some (JStr ''TIE'') \<longrightarrow>
        (1 \<le> \<bar>a - n\<bar> \<and> n < a \<longrightarrow> lookup v ''winner'' = Some (JStr ''AFFIRMATIVE'')) \<and>
        (1 \<le> \<bar>a - n\<bar> \<and> a < n \<longrightarrow> lookup v ''winner'' = Some (JStr ''NEGATIVE'')) \<and>
        (lookup v ''winner'' = Some (JStr ''TIE'') \<longleftrightarrow> a = n)"
    using w by (auto simp: a_def n_def)
  moreover have "lookup m ''winner'' = Some (JStr ''AFFIRMATIVE'') \<or>
      lookup m ''winner'' = Some (JStr ''NEGATIVE'') \<longrightarrow> lookup v ''winner'' = lookup m ''winner''"
    using w by auto
  ultimately show ?thesis using m sc ct tot unfolding a_def n_def by blast
qed

text \<open>
  A declared TIE with raw totals 300 and 340, 50 of the 340 from the negative reply, becomes
  NEGATIVE.
\<close>

theorem C4_tie_break_witness:
  "\<not> is_low_content ex_transcript \<and>
   (\<exists>v. main (ex_env ex_reply) ex_transcript = (1, Inr v) \<and>
      lookup ex_reply ''winner'' = Some (JStr ''TIE'') \<and>
      field_value v ''negative'' ''reply'' ''matter'' = 20 \<and>
      raw_total v ''affirmative'' = 300 \<and> raw_total v ''negative'' = 340 \<and>
      lookup v ''totals'' = Some (totals_dict 300 340) \<and>
      lookup v ''winner'' = Some (JStr ''NEGATIVE''))"
proof -
  from ex_reply_run obtain v where v: "main (ex_env ex_reply) ex_transcript = (1, Inr v)"
    "raw_total v ''affirmative'' = 300" "raw_total v ''negative'' = 340"
    "field_value v ''negative'' ''reply'' ''matter'' = 20" by blast
  have w: "lookup ex_reply ''winner'' = Some (JStr ''TIE'')" by (simp add: ex_reply_def)
  from C4_tie_break [OF v(1) ex_not_low] v(2,3) w
  have "lookup v ''winner'' = Some (JStr ''NEGATIVE'') \<and>
        lookup v ''totals'' = Some (totals_dict 300 340)"
    by (auto simp: ex_env_def)
  with v w ex_not_low show ?thesis by blast
qed

section \<open>The notable moves of a returned verdict, and the sentence minimum\<close>

text \<open>
  Claim C3 says that every returned verdict, the low-content one included, has four notable
  moves per side with the four slot names as times. The low-content verdict has none: the
  branch returns \<^verbatim>\<open>empty_result()\<close>, whose \<^verbatim>\<open>notable_moves\<close> are empty lists, without
  normalizing it.
\<close>

theorem C3_low_content_counterexample:
  "main (ex_env JNull) ex_short = (0, Inr low_verdict) \<and>
   notable_moves_of low_verdict ''affirmative'' = Some (JArr []) \<and>
   length (times_of low_verdict ''affirmative'') \<noteq> 4"
  using ex_low
  by (simp add: main_low low_content_verdict_eq low_verdict_fields times_of_def)

text \<open>
  Claim C3, amended. Every verdict returned by a run through the model (the transcript is
  not low-content) has, for each side, exactly four notable moves whose times are First
  Speech, Second Speech, Third Speech, Reply in this order, whatever the model's answer
  held; the verdict returned for a low-content transcript has an empty list of notable moves
  for each side.
\<close>

theorem C3_four_slots:
  assumes "main e t = (k, Inr v)"
  shows "(\<not> is_low_content t \<longrightarrow>
            length (times_of v ''affirmative'') = 4 \<and> length (times_of v ''negative'') = 4 \<and>
            times_of v ''affirmative'' = map (\<lambda>s. Some (JStr s)) SPEECH_SLOTS \<and>
            times_of v ''negative'' = map (\<lambda>s. Some (JStr s)) SPEECH_SLOTS) \<and>
         (is_low_content t \<longrightarrow>
            notable_moves_of v ''affirmative'' = Some (JArr []) \<and>
            notable_moves_of v ''negative'' = Some (JArr []))"
proof (intro conjI impI)
  assume low: "is_low_content t"
  with assms have "v = low_verdict" by (simp add: main_low low_content_verdict_eq)
  then show "notable_moves_of v ''affirmative'' = Some (JArr [])"
    "notable_moves_of v ''negative'' = Some (JArr [])"
    by (simp_all add: low_verdict_fields)
next
  assume "\<not> is_low_content t"
  from main_not_low [OF this assms] have "judge e t = Inr v" by simp
  from judge_verdict [OF this] have
    t: "times_of v ''affirmative'' = map (\<lambda>s. Some (JStr s)) SPEECH_SLOTS"
      "times_of v ''negative'' = map (\<lambda>s. Some (JStr s)) SPEECH_SLOTS"
    by blast+
  then show "times_of v ''affirmative'' = map (\<lambda>s. Some (JStr s)) SPEECH_SLOTS"
    "times_of v ''negative'' = map (\<lambda>s. Some (JStr s)) SPEECH_SLOTS"
    "length (times_of v ''affirmative'') = 4" "length (times_of v ''negative'') = 4"
    by (simp_all add: SPEECH_SLOTS_def)
qed

theorem C3_four_slots_witness:
  "\<not> is_low_content ex_transcript \<and>
   (\<exists>v. main (ex_env ex_answer) ex_transcript = (1, Inr v) \<and>
      times_of v ''affirmative'' =
        [Some (JStr ''First Speech''), Some (JStr ''Second Speech''), Some (JStr ''Third Speech''),
         Some (JStr ''Reply'')] \<and>
      times_of v ''negative'' =
        [Some (JStr ''First Speech''), Some (JStr ''Second Speech''), Some (JStr ''Third Speech''),
         Some (JStr ''Reply'')])"
proof -
  from ex_run obtain v where v: "main (ex_env ex_answer) ex_transcript = (1, Inr v)" by blast
  from C3_four_slots [OF v] ex_not_low v show ?thesis
    by (auto simp: SPEECH_SLOTS_def)
qed

text \<open>
  Claim C8 says that the normalized overview and improvements always hold at least four
  sentences. They do not: \<^verbatim>\<open>_ensure_min_sentences\<close> counts one sentence more for every
  filler it appends, but a text that does not end with a sentence mark runs into the first
  filler, and there are three fillers only. The overview \<open>Hi\<close> is normalized to a text of
  three sentences, as the function's own count has it.
\<close>

theorem C8_terse_overview_three_sentences:
  "map_sum id (\<lambda>r. text_sentences r ''affirmative'' ''overview'')
     (ensure_analysis_defaults ex_terse t) = Inr (Some 3)"
  by code_simp

lemma ensure_min_sentences_short:
  "ensure_min_sentences ''Hi'' 4 =
     ''Hi They framed the weighing early and attempted to collapse the round onto the decisive clashes. Comparative analysis connected claims to explicit impacts, although some links could be clearer. Time allocation and signposting generally supported flow and judge comprehension.''"
  "sentence_count (ensure_min_sentences ''Hi'' 4) = 3"
  "sentence_count (ensure_min_sentences ''?!'' 4) = 3"
  by code_simp+

end
